theory Spec2Isabelle
  imports Main "HOL-Library.Sublist" "HOL-Library.AList"
begin

section \<open>Strings\<close>

text \<open>
  JavaScript strings are modelled as \<^typ>\<open>string\<close> (lists of code units). The two
  path separators that the regular expression \<^verbatim>\<open>/[\\\/]/\<close> matches are the forward
  slash and the backslash.
\<close>

definition is_sep :: "char \<Rightarrow> bool" where
  "is_sep c = (c = CHR ''/'' \<or> c = CHR 0x5C)"

text \<open>\<^verbatim>\<open>String.prototype.split\<close> on a one-character separator class: the pieces between
  the separators, empty pieces included (\<^verbatim>\<open>"".split(re)\<close> is \<^verbatim>\<open>[""]\<close>).\<close>

fun split_on :: "(char \<Rightarrow> bool) \<Rightarrow> string \<Rightarrow> string list" where
  "split_on sep [] = [[]]"
| "split_on sep (c # cs) =
     (if sep c then [] # split_on sep cs
      else (case split_on sep cs of [] \<Rightarrow> [[c]] | p # ps \<Rightarrow> (c # p) # ps))"

abbreviation split_sep :: "string \<Rightarrow> string list" where
  "split_sep \<equiv> split_on is_sep"

text \<open>\<^verbatim>\<open>filePath.split(/[\\\/]/).filter((p) => p)\<close>: the empty string is the only falsy
  string.\<close>

definition path_parts :: "string \<Rightarrow> string list" where
  "path_parts filePath = filter (\<lambda>p. p \<noteq> []) (split_sep filePath)"

text \<open>\<^verbatim>\<open>String.prototype.indexOf\<close>: the first index at which the pattern occurs, or -1.\<close>

fun indexOf_from :: "string \<Rightarrow> string \<Rightarrow> int \<Rightarrow> int" where
  "indexOf_from [] pat i = (if pat = [] then i else - 1)"
| "indexOf_from (c # cs) pat i =
     (if prefix pat (c # cs) then i else indexOf_from cs pat (i + 1))"

definition indexOf :: "string \<Rightarrow> string \<Rightarrow> int" where
  "indexOf s pat = indexOf_from s pat 0"

text \<open>\<^verbatim>\<open>String.prototype.includes\<close>.\<close>

definition str_includes :: "string \<Rightarrow> string \<Rightarrow> bool" where
  "str_includes s pat = (indexOf s pat \<noteq> - 1)"

section \<open>The archive header and its lookup\<close>

text \<open>
  A header node is a JSON object. Only two of its properties are read by the program:
  \<^verbatim>\<open>files\<close>, the mapping from child names to child nodes, which a directory node has and
  a file node has not, and \<^verbatim>\<open>unpacked\<close>, an optional boolean. The children mapping is
  itself a JSON object; its own keys are modelled as a map.
\<close>

datatype node = Node (files: "(string \<rightharpoonup> node) option") (unpacked: "bool option")

record entryInfo =
  isDir :: bool
  isUnpacked :: bool
  exists :: bool

definition notFound :: entryInfo where
  "notFound = \<lparr>isDir = False, isUnpacked = False, exists = False\<rparr>"

text \<open>
  The header comes from \<^verbatim>\<open>JSON.parse\<close>, so the prototype of every object in it is
  \<^verbatim>\<open>Object.prototype\<close>. The property read \<^verbatim>\<open>node.files[part]\<close> looks for the own key
  first and then for a member of the prototype. These are the members of
  \<^verbatim>\<open>Object.prototype\<close>; each is a function, except \<^verbatim>\<open>__proto__\<close>, which reads as the
  prototype object itself. All are truthy, and none has a \<^verbatim>\<open>files\<close> or an \<^verbatim>\<open>unpacked\<close>
  property, own or inherited: for the two properties that the program reads, such a
  value is the node \<open>Node None None\<close>.
\<close>

definition objectPrototype :: "string list" where
  "objectPrototype =
     [''constructor'', ''__defineGetter__'', ''__defineSetter__'', ''hasOwnProperty'',
      ''__lookupGetter__'', ''__lookupSetter__'', ''isPrototypeOf'',
      ''propertyIsEnumerable'', ''toString'', ''valueOf'', ''__proto__'',
      ''toLocaleString'']"

text \<open>\<^verbatim>\<open>node.files[part]\<close> on a children mapping.\<close>

definition getProperty :: "(string \<rightharpoonup> node) \<Rightarrow> string \<Rightarrow> node option" where
  "getProperty children part =
     (case children part of
        Some child \<Rightarrow> Some child
      | None \<Rightarrow> if part \<in> set objectPrototype then Some (Node None None) else None)"

text \<open>The \<^verbatim>\<open>for (const part of parts)\<close> loop of \<^verbatim>\<open>getAsarEntryInfo\<close>. \<open>Inl\<close> is the
  early \<^verbatim>\<open>return\<close> inside the loop, \<open>Inr\<close> the node the loop ends on.\<close>

fun walk :: "node \<Rightarrow> string list \<Rightarrow> entryInfo + node" where
  "walk nd [] = Inr nd"
| "walk nd (part # rest) =
     (case files nd of
        None \<Rightarrow> Inl notFound
      | Some children \<Rightarrow>
          (case getProperty children part of
             None \<Rightarrow> Inl notFound
           | Some child \<Rightarrow> walk child rest))"

definition getAsarEntryInfo :: "node \<Rightarrow> string \<Rightarrow> entryInfo" where
  "getAsarEntryInfo header filePath =
     (case walk header (path_parts filePath) of
        Inl early \<Rightarrow> early
      | Inr nd \<Rightarrow>
          \<lparr>isDir = (files nd \<noteq> None),
           isUnpacked = (unpacked nd = Some True),
           exists = True\<rparr>)"

text \<open>
  The lookup as the specification words it. A segment is a maximal non-empty run of
  characters that are not separators; a node's child under a name is looked up in its
  children mapping, and a node without such a mapping has no children.
\<close>

definition child_of :: "node \<Rightarrow> string \<Rightarrow> node option" where
  "child_of nd name = (case files nd of None \<Rightarrow> None | Some children \<Rightarrow> children name)"

fun resolve_spec :: "node \<Rightarrow> string list \<Rightarrow> node option" where
  "resolve_spec nd [] = Some nd"
| "resolve_spec nd (seg # segs) =
     (case child_of nd seg of None \<Rightarrow> None | Some c \<Rightarrow> resolve_spec c segs)"

definition lookup_spec :: "node \<Rightarrow> string list \<Rightarrow> entryInfo" where
  "lookup_spec header segs =
     (case resolve_spec header segs of
        None \<Rightarrow> \<lparr>isDir = False, isUnpacked = False, exists = False\<rparr>
      | Some nd \<Rightarrow>
          \<lparr>isDir = (files nd \<noteq> None), isUnpacked = (unpacked nd = Some True),
           exists = True\<rparr>)"

definition example_header :: node where
  "example_header =
     Node (Some [''app'' \<mapsto> Node (Some [''main.js'' \<mapsto> Node None None,
                                         ''addon.node'' \<mapsto> Node None (Some True)])
                               (Some True)])
          None"

section \<open>The filesystem\<close>

text \<open>
  The program runs against Node's \<^verbatim>\<open>fs\<close> and \<^verbatim>\<open>fs-extra\<close> modules. The filesystem is
  modelled as a tree of regular files and directories, so that the \<^verbatim>\<open>Stats\<close> of an
  existing path say either \<^verbatim>\<open>isFile()\<close> or \<^verbatim>\<open>isDirectory()\<close>. A path is represented by its
  normal form, the list of its segments from the root, so that \<^verbatim>\<open>path.dirname\<close> drops
  the last segment and \<^verbatim>\<open>path.join\<close> appends the segments of a relative POSIX path,
  skipping empty and \<^verbatim>\<open>.\<close> segments and stepping up at \<^verbatim>\<open>..\<close>.

  To let operations fail for reasons the tree does not show (permissions, device
  errors), the world carries a table of faults: an operation whose target path has a
  fault fails with the code given there, and \<^verbatim>\<open>existsSync\<close>, which never throws,
  answers \<^verbatim>\<open>false\<close> for it. What \<^verbatim>\<open>console.warn\<close> printed is the third component.
\<close>

type_synonym path = "string list"

datatype fsnode = File string | Dir "(string \<times> fsnode) list"

datatype stats = RegularFile | Directory

record exn =
  code :: "string option"
  epath :: "string option"
  message :: string

record world =
  tree :: fsnode
  faults :: "path \<rightharpoonup> string"
  console :: "string list"

definition render :: "path \<Rightarrow> string" where
  "render p = concat (map (\<lambda>s. CHR ''/'' # s) p)"

text \<open>\<^verbatim>\<open>new Error(msg)\<close> has neither a \<^verbatim>\<open>code\<close> nor a \<^verbatim>\<open>path\<close> property.\<close>

definition Error :: "string \<Rightarrow> exn" where
  "Error msg = \<lparr>code = None, epath = None, message = msg\<rparr>"

definition io_error :: "string \<Rightarrow> path \<Rightarrow> exn" where
  "io_error c p = \<lparr>code = Some c, epath = Some (render p), message = c @ '': '' @ render p\<rparr>"

fun join_segs :: "path \<Rightarrow> string list \<Rightarrow> path" where
  "join_segs p [] = p"
| "join_segs p (s # ss) =
     (if s = [] \<or> s = ''.'' then join_segs p ss
      else if s = ''..'' then join_segs (butlast p) ss
      else join_segs (p @ [s]) ss)"

definition path_join :: "path \<Rightarrow> string \<Rightarrow> path" where
  "path_join dir rel = join_segs dir (split_on (\<lambda>c. c = CHR ''/'') rel)"

definition dirname :: "path \<Rightarrow> path" where
  "dirname p = butlast p"

text \<open>\<^verbatim>\<open>p + suffix\<close> on a path string extends its last segment.\<close>

definition path_suffix :: "path \<Rightarrow> string \<Rightarrow> path" where
  "path_suffix p ext = (if p = [] then [ext] else butlast p @ [last p @ ext])"

subsection \<open>The tree\<close>

fun lookup :: "fsnode \<Rightarrow> path \<Rightarrow> fsnode option" where
  "lookup t [] = Some t"
| "lookup (File c) (s # p) = None"
| "lookup (Dir es) (s # p) =
     (case map_of es s of None \<Rightarrow> None | Some child \<Rightarrow> lookup child p)"

fun chain :: "path \<Rightarrow> fsnode" where
  "chain [] = Dir []"
| "chain (s # p) = Dir [(s, chain p)]"

text \<open>\<^verbatim>\<open>mkdir -p\<close>: the error code, or the tree with the missing directories added.\<close>

fun mkdirp :: "fsnode \<Rightarrow> path \<Rightarrow> string + fsnode" where
  "mkdirp (File c) [] = Inl ''EEXIST''"
| "mkdirp (Dir es) [] = Inr (Dir es)"
| "mkdirp (File c) (s # p) = Inl ''ENOTDIR''"
| "mkdirp (Dir es) (s # p) =
     (case map_of es s of
        None \<Rightarrow> Inr (Dir (AList.update s (chain p) es))
      | Some child \<Rightarrow>
          (case mkdirp child p of
             Inl e \<Rightarrow> Inl e
           | Inr child' \<Rightarrow> Inr (Dir (AList.update s child' es))))"

text \<open>Writing a regular file: the parent must be a directory, the target must not be
  one.\<close>

fun put :: "fsnode \<Rightarrow> path \<Rightarrow> string \<Rightarrow> string + fsnode" where
  "put (File old) [] c = Inr (File c)"
| "put (Dir es) [] c = Inl ''EISDIR''"
| "put (File old) (s # p) c = Inl ''ENOTDIR''"
| "put (Dir es) (s # p) c =
     (case map_of es s of
        None \<Rightarrow> (if p = [] then Inr (Dir (AList.update s (File c) es)) else Inl ''ENOENT'')
      | Some child \<Rightarrow>
          (case put child p c of
             Inl e \<Rightarrow> Inl e
           | Inr child' \<Rightarrow> Inr (Dir (AList.update s child' es))))"

text \<open>Removing the entry at a path, with everything below it.\<close>

fun del :: "fsnode \<Rightarrow> path \<Rightarrow> fsnode" where
  "del t [] = t"
| "del (File c) (s # p) = File c"
| "del (Dir es) (s # p) =
     (if p = [] then Dir (AList.delete s es)
      else (case map_of es s of
              None \<Rightarrow> Dir es
            | Some child \<Rightarrow> Dir (AList.update s (del child p) es)))"

subsection \<open>The operations of \<^verbatim>\<open>fs\<close> and \<^verbatim>\<open>fs-extra\<close>\<close>

definition existsSync :: "path \<Rightarrow> world \<Rightarrow> bool" where
  "existsSync p w = (faults w p = None \<and> lookup (tree w) p \<noteq> None)"

definition statSync :: "path \<Rightarrow> world \<Rightarrow> exn + stats" where
  "statSync p w =
     (case faults w p of
        Some c \<Rightarrow> Inl (io_error c p)
      | None \<Rightarrow>
          (case lookup (tree w) p of
             None \<Rightarrow> Inl (io_error ''ENOENT'' p)
           | Some (File c) \<Rightarrow> Inr RegularFile
           | Some (Dir es) \<Rightarrow> Inr Directory))"

definition isFile :: "stats \<Rightarrow> bool" where
  "isFile st = (st = RegularFile)"

definition isDirectory :: "stats \<Rightarrow> bool" where
  "isDirectory st = (st = Directory)"

definition readdirSync :: "path \<Rightarrow> world \<Rightarrow> exn + string list" where
  "readdirSync p w =
     (case faults w p of
        Some c \<Rightarrow> Inl (io_error c p)
      | None \<Rightarrow>
          (case lookup (tree w) p of
             None \<Rightarrow> Inl (io_error ''ENOENT'' p)
           | Some (File c) \<Rightarrow> Inl (io_error ''ENOTDIR'' p)
           | Some (Dir es) \<Rightarrow> Inr (remdups (map fst es))))"

definition readFileSync :: "path \<Rightarrow> world \<Rightarrow> exn + string" where
  "readFileSync p w =
     (case faults w p of
        Some c \<Rightarrow> Inl (io_error c p)
      | None \<Rightarrow>
          (case lookup (tree w) p of
             None \<Rightarrow> Inl (io_error ''ENOENT'' p)
           | Some (File c) \<Rightarrow> Inr c
           | Some (Dir es) \<Rightarrow> Inl (io_error ''EISDIR'' p)))"

definition ensureDirSync :: "path \<Rightarrow> world \<Rightarrow> exn option \<times> world" where
  "ensureDirSync p w =
     (case faults w p of
        Some c \<Rightarrow> (Some (io_error c p), w)
      | None \<Rightarrow>
          (case mkdirp (tree w) p of
             Inl c \<Rightarrow> (Some (io_error c p), w)
           | Inr t \<Rightarrow> (None, w\<lparr>tree := t\<rparr>)))"

definition writeFileSync :: "path \<Rightarrow> string \<Rightarrow> world \<Rightarrow> exn option \<times> world" where
  "writeFileSync p c w =
     (case faults w p of
        Some e \<Rightarrow> (Some (io_error e p), w)
      | None \<Rightarrow>
          (case put (tree w) p c of
             Inl e \<Rightarrow> (Some (io_error e p), w)
           | Inr t \<Rightarrow> (None, w\<lparr>tree := t\<rparr>)))"

definition copyFileSync :: "path \<Rightarrow> path \<Rightarrow> world \<Rightarrow> exn option \<times> world" where
  "copyFileSync src dest w =
     (case readFileSync src w of
        Inl e \<Rightarrow> (Some e, w)
      | Inr c \<Rightarrow> writeFileSync dest c w)"

text \<open>
  \<^verbatim>\<open>fs-extra\<close>'s \<^verbatim>\<open>removeSync\<close> removes a file or a whole directory and accepts a
  path that does not exist. It removes the entries of a directory before the directory
  itself, in the order of the listing, and stops with the error of the first path that
  it cannot remove (one with a fault), leaving in place what it has not yet removed.
  \<open>remove_node\<close> gives \<open>None\<close> when the node is removed as a whole, and otherwise the
  error with what remains of the node.
\<close>

fun remove_node :: "(path \<rightharpoonup> string) \<Rightarrow> path \<Rightarrow> fsnode \<Rightarrow> (exn \<times> fsnode) option"
  and remove_entries ::
    "(path \<rightharpoonup> string) \<Rightarrow> path \<Rightarrow> (string \<times> fsnode) list \<Rightarrow> (exn \<times> (string \<times> fsnode) list) option"
  where
  "remove_node fl p (File c) =
     (case fl p of Some e \<Rightarrow> Some (io_error e p, File c) | None \<Rightarrow> None)"
| "remove_node fl p (Dir es) =
     (case fl p of
        Some e \<Rightarrow> Some (io_error e p, Dir es)
      | None \<Rightarrow>
          (case remove_entries fl p es of
             Some (err, es') \<Rightarrow> Some (err, Dir es')
           | None \<Rightarrow> None))"
| "remove_entries fl p [] = None"
| "remove_entries fl p (e # es) =
     (case remove_node fl (p @ [fst e]) (snd e) of
        Some (err, child') \<Rightarrow> Some (err, (fst e, child') # es)
      | None \<Rightarrow> remove_entries fl p es)"

text \<open>Putting a node in the place of the one at a path.\<close>

fun replace_node :: "fsnode \<Rightarrow> path \<Rightarrow> fsnode \<Rightarrow> fsnode" where
  "replace_node t [] nd = nd"
| "replace_node (File c) (s # p) nd = File c"
| "replace_node (Dir es) (s # p) nd =
     (case map_of es s of
        None \<Rightarrow> Dir es
      | Some child \<Rightarrow> Dir (AList.update s (replace_node child p nd) es))"

text \<open>The root cannot be removed.\<close>

definition removeSync :: "path \<Rightarrow> world \<Rightarrow> exn option \<times> world" where
  "removeSync p w =
     (case faults w p of
        Some c \<Rightarrow> (Some (io_error c p), w)
      | None \<Rightarrow>
          (if p = [] then (Some (io_error ''EBUSY'' p), w)
           else (case lookup (tree w) p of
                   None \<Rightarrow> (None, w)
                 | Some nd \<Rightarrow>
                     (case remove_node (faults w) p nd of
                        Some (err, nd') \<Rightarrow> (Some err, w\<lparr>tree := replace_node (tree w) p nd'\<rparr>)
                      | None \<Rightarrow> (None, w\<lparr>tree := del (tree w) p\<rparr>)))))"

definition unlinkSync :: "path \<Rightarrow> world \<Rightarrow> exn option \<times> world" where
  "unlinkSync p w =
     (case faults w p of
        Some c \<Rightarrow> (Some (io_error c p), w)
      | None \<Rightarrow>
          (case lookup (tree w) p of
             None \<Rightarrow> (Some (io_error ''ENOENT'' p), w)
           | Some (Dir es) \<Rightarrow> (Some (io_error ''EISDIR'' p), w)
           | Some (File c) \<Rightarrow> (None, w\<lparr>tree := del (tree w) p\<rparr>)))"

definition warn :: "string \<Rightarrow> world \<Rightarrow> world" where
  "warn msg w = w\<lparr>console := console w @ [msg]\<rparr>"

subsection \<open>What a path holds\<close>

text \<open>The view of the tree that the program observes: at each path a regular file with
  its content, a directory, or nothing.\<close>

datatype kind = KFile string | KDir

definition kind_of :: "fsnode \<Rightarrow> kind" where
  "kind_of nd = (case nd of File c \<Rightarrow> KFile c | Dir es \<Rightarrow> KDir)"

definition entry_at :: "fsnode \<Rightarrow> path \<Rightarrow> kind option" where
  "entry_at t p = map_option kind_of (lookup t p)"

section \<open>Extraction\<close>

text \<open>
  The \<^verbatim>\<open>asar\<close> package is an external collaborator; its four functions that the program
  calls are parameters of the model. The three that read the archive depend on the
  archive alone. \<^verbatim>\<open>extractFile\<close> is typed \<^verbatim>\<open>any\<close> in the program, which tests its result
  with \<^verbatim>\<open>file !== undefined && Buffer.isBuffer(file)\<close>.
\<close>

datatype jsval = Undefined | Buffer string | NotBuffer

record asarlib =
  listPackage :: "path \<Rightarrow> exn + string list"
  readArchiveHeaderSync :: "path \<Rightarrow> exn + node"
  extractFile :: "path \<Rightarrow> string \<Rightarrow> exn + jsval"
  extractAll :: "path \<Rightarrow> path \<Rightarrow> world \<Rightarrow> exn option \<times> world"

subsection \<open>\<^verbatim>\<open>copyUnpackedFiles\<close>\<close>

text \<open>\<^verbatim>\<open>err.code === "ENOENT" || err.code === "EPERM" || err.code === "EACCES"\<close>\<close>

definition skippable :: "exn \<Rightarrow> bool" where
  "skippable err =
     (code err = Some ''ENOENT'' \<or> code err = Some ''EPERM'' \<or> code err = Some ''EACCES'')"

text \<open>
  The recursion of \<^verbatim>\<open>copyUnpackedFiles\<close> follows the directories it finds on disk, which
  it may itself be creating when the destination lies inside the source, so it need not
  end. The model counts the depth of the recursion down from a bound; \<open>None\<close> means that
  the bound was reached. \<open>copyItems\<close> is the \<^verbatim>\<open>for (const item of items)\<close> loop with its
  \<^verbatim>\<open>catch\<close> clause, and \<open>copyEntry\<close> the \<^verbatim>\<open>try\<close> block of its body.
\<close>

function copyUnpackedFiles :: "nat \<Rightarrow> path \<Rightarrow> path \<Rightarrow> world \<Rightarrow> (exn option \<times> world) option"
  and copyItems :: "nat \<Rightarrow> path \<Rightarrow> path \<Rightarrow> string list \<Rightarrow> world \<Rightarrow> (exn option \<times> world) option"
  and copyEntry :: "nat \<Rightarrow> path \<Rightarrow> path \<Rightarrow> world \<Rightarrow> (exn option \<times> world) option" where
  "copyUnpackedFiles 0 srcDir destDir w = None"
| "copyUnpackedFiles (Suc n) srcDir destDir w =
     (if \<not> existsSync srcDir w then Some (None, w)
      else (case readdirSync srcDir w of
              Inl e \<Rightarrow> Some (Some e, w)
            | Inr items \<Rightarrow> copyItems n srcDir destDir items w))"
| "copyItems n srcDir destDir [] w = Some (None, w)"
| "copyItems n srcDir destDir (item # items) w =
     (case copyEntry n (srcDir @ [item]) (destDir @ [item]) w of
        None \<Rightarrow> None
      | Some (None, w') \<Rightarrow> copyItems n srcDir destDir items w'
      | Some (Some err, w') \<Rightarrow>
          if skippable err then
            copyItems n srcDir destDir items
              (warn (''Warning: Skipping inaccessible file: '' @ render (srcDir @ [item])) w')
          else Some (Some err, w'))"
| "copyEntry n srcPath destPath w =
     (case statSync srcPath w of
        Inl e \<Rightarrow> Some (Some e, w)
      | Inr st \<Rightarrow>
          if isDirectory st then
            (case ensureDirSync destPath w of
               (Some e, w') \<Rightarrow> Some (Some e, w')
             | (None, w') \<Rightarrow> copyUnpackedFiles n srcPath destPath w')
          else
            (case ensureDirSync (dirname destPath) w of
               (Some e, w') \<Rightarrow> Some (Some e, w')
             | (None, w') \<Rightarrow> Some (copyFileSync srcPath destPath w')))"
  by pat_completeness auto
termination
  by (relation "measures
        [\<lambda>x. case x of Inl (n, _) \<Rightarrow> n | Inr (Inl (n, _)) \<Rightarrow> n | Inr (Inr (n, _)) \<Rightarrow> n,
         \<lambda>x. case x of Inl _ \<Rightarrow> 0 | Inr (Inl _) \<Rightarrow> 2 | Inr (Inr _) \<Rightarrow> (1::nat),
         \<lambda>x. case x of Inr (Inl (_, _, _, items, _)) \<Rightarrow> length items | _ \<Rightarrow> 0]")
    auto

declare copyEntry.simps [simp del]

subsection \<open>\<^verbatim>\<open>extractAsarManually\<close>\<close>

text \<open>\<^verbatim>\<open>filename.replace(/^[\\\/]+/, "")\<close>\<close>

definition normalizeFilename :: "string \<Rightarrow> string" where
  "normalizeFilename filename = dropWhile is_sep filename"

text \<open>The \<^verbatim>\<open>try\<close> block of the loop body (lines 119 to 125).\<close>

definition tryExtractFile :: "asarlib \<Rightarrow> path \<Rightarrow> string \<Rightarrow> path \<Rightarrow> world \<Rightarrow> exn option \<times> world" where
  "tryExtractFile lib asarFile normalizedFilename destFilename w =
     (case extractFile lib asarFile normalizedFilename of
        Inl e \<Rightarrow> (Some e, w)
      | Inr file \<Rightarrow>
          (case file of
             Buffer bytes \<Rightarrow>
               (case ensureDirSync (dirname destFilename) w of
                  (Some e, w') \<Rightarrow> (Some e, w')
                | (None, w') \<Rightarrow> writeFileSync destFilename bytes w')
           | Undefined \<Rightarrow> (None, w)
           | NotBuffer \<Rightarrow> (None, w)))"

text \<open>The rest of the loop body once the destination is known not to hold a regular
  file (lines 110 to 133).\<close>

definition extractMissing :: "asarlib \<Rightarrow> path \<Rightarrow> string \<Rightarrow> path \<Rightarrow> entryInfo \<Rightarrow> world \<Rightarrow> exn option \<times> world" where
  "extractMissing lib asarFile normalizedFilename destFilename entry w =
     (if isUnpacked entry then
        (None, warn (''Warning: Skipping missing unpacked file: '' @ normalizedFilename) w)
      else
        (case tryExtractFile lib asarFile normalizedFilename destFilename w of
           (Some err, w') \<Rightarrow>
             (None, warn (''Warning: Failed to extract '' @ normalizedFilename @ '': '' @ message err) w')
         | (None, w') \<Rightarrow> (None, w')))"

text \<open>One iteration of the loop over the listed file names (lines 83 to 133). A thrown
  error is the first component of the result.\<close>

definition extractEntry :: "asarlib \<Rightarrow> path \<Rightarrow> path \<Rightarrow> node \<Rightarrow> string \<Rightarrow> world \<Rightarrow> exn option \<times> world" where
  "extractEntry lib asarFile destDir header filename w =
     (let normalizedFilename = normalizeFilename filename;
          destFilename = path_join destDir normalizedFilename;
          entry = getAsarEntryInfo header normalizedFilename
      in if isDir entry then
           (if \<not> existsSync destFilename w then ensureDirSync destFilename w else (None, w))
         else if existsSync destFilename w then
           (case statSync destFilename w of
              Inl e \<Rightarrow> (Some e, w)
            | Inr st \<Rightarrow>
                if isFile st then (None, w)
                else if isDirectory st then
                  (case removeSync destFilename w of
                     (Some e, w') \<Rightarrow> (Some e, w')
                   | (None, w') \<Rightarrow>
                       extractMissing lib asarFile normalizedFilename destFilename entry w')
                else extractMissing lib asarFile normalizedFilename destFilename entry w)
         else extractMissing lib asarFile normalizedFilename destFilename entry w)"

fun extractEntries :: "asarlib \<Rightarrow> path \<Rightarrow> path \<Rightarrow> node \<Rightarrow> string list \<Rightarrow> world \<Rightarrow> exn option \<times> world" where
  "extractEntries lib asarFile destDir header [] w = (None, w)"
| "extractEntries lib asarFile destDir header (filename # filenames) w =
     (case extractEntry lib asarFile destDir header filename w of
        (Some e, w') \<Rightarrow> (Some e, w')
      | (None, w') \<Rightarrow> extractEntries lib asarFile destDir header filenames w')"

definition extractAsarManually :: "asarlib \<Rightarrow> path \<Rightarrow> path \<Rightarrow> path \<Rightarrow> world \<Rightarrow> exn option \<times> world" where
  "extractAsarManually lib asarFile destDir unpackedDir w =
     (case listPackage lib asarFile of
        Inl e \<Rightarrow> (Some e, w)
      | Inr filenames \<Rightarrow>
          (case readArchiveHeaderSync lib asarFile of
             Inl e \<Rightarrow> (Some e, w)
           | Inr header \<Rightarrow> extractEntries lib asarFile destDir header filenames w))"

subsection \<open>\<^verbatim>\<open>extractAsarWithUnpacked\<close>\<close>

text \<open>\<^verbatim>\<open>err.code === "ENOENT" && err.path && err.path.includes(".unpacked")\<close>: a path that
  is \<^verbatim>\<open>undefined\<close> or the empty string is falsy.\<close>

definition missingUnpacked :: "exn \<Rightarrow> bool" where
  "missingUnpacked err =
     (code err = Some ''ENOENT'' \<and>
      (case epath err of
         None \<Rightarrow> False
       | Some p \<Rightarrow> p \<noteq> [] \<and> str_includes p ''.unpacked''))"

definition fallbackWarning :: string where
  "fallbackWarning = ''Warning: Some unpacked files are missing, using fallback extraction...''"

definition extractAsarWithUnpacked :: "nat \<Rightarrow> asarlib \<Rightarrow> path \<Rightarrow> path \<Rightarrow> world \<Rightarrow> (exn option \<times> world) option" where
  "extractAsarWithUnpacked n lib asarFile destDir w =
     (let unpackedDir = path_suffix asarFile ''.unpacked'' in
      case (if existsSync unpackedDir w then copyUnpackedFiles n unpackedDir destDir w
            else Some (None, w)) of
        None \<Rightarrow> None
      | Some (Some e, w1) \<Rightarrow> Some (Some e, w1)
      | Some (None, w1) \<Rightarrow>
          (case extractAll lib asarFile destDir w1 of
             (None, w2) \<Rightarrow> Some (None, w2)
           | (Some err, w2) \<Rightarrow>
               if missingUnpacked err then
                 Some (extractAsarManually lib asarFile destDir unpackedDir (warn fallbackWarning w2))
               else Some (Some err, w2)))"

text \<open>The test of lines 99 to 103: the destination exists and is a regular file.\<close>

definition regularFileAt :: "path \<Rightarrow> world \<Rightarrow> bool" where
  "regularFileAt p w =
     (existsSync p w \<and> (case statSync p w of Inl e \<Rightarrow> False | Inr st \<Rightarrow> isFile st))"

text \<open>Likewise for a directory (line 105).\<close>

definition directoryAt :: "path \<Rightarrow> world \<Rightarrow> bool" where
  "directoryAt p w =
     (existsSync p w \<and> (case statSync p w of Inl e \<Rightarrow> False | Inr st \<Rightarrow> isDirectory st))"

section \<open>The patcher\<close>

text \<open>
  The options of the constructor. An optional path that is \<^verbatim>\<open>undefined\<close> or the empty
  string is falsy in the tests \<^verbatim>\<open>options.asar || ...\<close>, \<^verbatim>\<open>options.dir || ...\<close> and
  \<^verbatim>\<open>if (dir)\<close>, and is \<open>None\<close> here.
\<close>

record options =
  opt_asar :: "path option"
  opt_dir :: "path option"
  opt_features :: "string list"

text \<open>
  \<^verbatim>\<open>CURRENT_PLATFORM\<close> and the enumeration \<^verbatim>\<open>Platforms\<close> come from a module that is not
  part of the sources at hand, and so does the comparator \<^verbatim>\<open>natsort\<close>; they are taken from
  the environment, with \<^verbatim>\<open>os.homedir()\<close>. \<open>other\<close> stands for a platform that the
  \<^verbatim>\<open>switch\<close> of \<^verbatim>\<open>findAsar\<close> has no case for.
\<close>

datatype platforms = linux | windows | macOS | other

record env =
  CURRENT_PLATFORM :: platforms
  homedir :: path
  natsort_desc :: "string list \<Rightarrow> string list"

definition findAsarUnix :: "path list \<Rightarrow> world \<Rightarrow> path option" where
  "findAsarUnix candidates w = List.find (\<lambda>f. existsSync f w) candidates"

definition findAsarLinux :: "world \<Rightarrow> path option" where
  "findAsarLinux w =
     findAsarUnix
       [[''opt'', ''gitkraken'', ''resources'', ''app.asar''],
        [''usr'', ''share'', ''gitkraken'', ''resources'', ''app.asar'']] w"

text \<open>\<^verbatim>\<open>/^app-\d+\.\d+\.\d+$/\<close>\<close>

definition is_digits :: "string \<Rightarrow> bool" where
  "is_digits s = (s \<noteq> [] \<and> (\<forall>c \<in> set s. c \<in> set ''0123456789''))"

definition is_app_version :: "string \<Rightarrow> bool" where
  "is_app_version item =
     (prefix ''app-'' item \<and>
      (case split_on (\<lambda>c. c = CHR ''.'') (drop 4 item) of
         [a, b, c] \<Rightarrow> is_digits a \<and> is_digits b \<and> is_digits c
       | _ \<Rightarrow> False))"

definition findAsarWindows :: "env \<Rightarrow> world \<Rightarrow> exn + path option" where
  "findAsarWindows ev w =
     (let gitkrakenLocal = path_join (homedir ev) ''AppData/Local/gitkraken'' in
      if \<not> existsSync gitkrakenLocal w then Inr None
      else
        (case readdirSync gitkrakenLocal w of
           Inl e \<Rightarrow> Inl e
         | Inr items \<Rightarrow>
             (case natsort_desc ev (filter is_app_version items) of
                [] \<Rightarrow> Inr None
              | app # others \<Rightarrow>
                  if app = [] then Inr None
                  else
                    (let found = path_join (path_join gitkrakenLocal app) ''resources/app.asar''
                     in if existsSync found w then Inr (Some found) else Inr None))))"

definition findAsarMacOS :: "world \<Rightarrow> path option" where
  "findAsarMacOS w =
     findAsarUnix [[''Applications'', ''GitKraken.app'', ''Contents'', ''Resources'', ''app.asar'']] w"

definition findAsar :: "env \<Rightarrow> path option \<Rightarrow> world \<Rightarrow> exn + path option" where
  "findAsar ev dir_option w =
     (case dir_option of
        Some d \<Rightarrow> Inr (Some (path_suffix d ''.asar''))
      | None \<Rightarrow>
          (case CURRENT_PLATFORM ev of
             linux \<Rightarrow> Inr (findAsarLinux w)
           | windows \<Rightarrow> findAsarWindows ev w
           | macOS \<Rightarrow> Inr (findAsarMacOS w)
           | other \<Rightarrow> Inr None))"

text \<open>\<^verbatim>\<open>path.basename(p, path.extname(p))\<close> on the last segment: the extension starts at
  the last dot, unless that dot is the first character or the segment is \<^verbatim>\<open>..\<close>.\<close>

definition strip_ext :: "string \<Rightarrow> string" where
  "strip_ext s =
     (let stem = rev (drop 1 (dropWhile (\<lambda>c. c \<noteq> CHR ''.'') (rev s)))
      in if CHR ''.'' \<notin> set s \<or> stem = [] \<or> s = ''..'' then s else stem)"

definition findDir :: "path \<Rightarrow> path" where
  "findDir asarFile =
     path_join (dirname asarFile) (strip_ext (if asarFile = [] then [] else last asarFile))"

record patcher =
  asar :: path
  dir :: path
  features :: "string list"

text \<open>\<^verbatim>\<open>options.asar || Patcher.findAsar(options.dir)\<close>\<close>

definition maybeAsar :: "env \<Rightarrow> options \<Rightarrow> world \<Rightarrow> exn + path option" where
  "maybeAsar ev opts w =
     (case opt_asar opts of
        Some a \<Rightarrow> Inr (Some a)
      | None \<Rightarrow> findAsar ev (opt_dir opts) w)"

definition new_Patcher :: "env \<Rightarrow> options \<Rightarrow> world \<Rightarrow> exn + patcher" where
  "new_Patcher ev opts w =
     (case maybeAsar ev opts w of
        Inl e \<Rightarrow> Inl e
      | Inr None \<Rightarrow> Inl (Error ''Can't find app.asar!'')
      | Inr (Some a) \<Rightarrow>
          (let this = \<lparr>asar = a,
                       dir = (case opt_dir opts of Some d \<Rightarrow> d | None \<Rightarrow> findDir a),
                       features = opt_features opts\<rparr>
           in if features this = [] then Inl (Error ''Features is empty!'') else Inr this))"

subsection \<open>\<^verbatim>\<open>patchDirWithPro\<close>\<close>

definition patchedPattern :: string where
  \<open>patchedPattern =
     ''(delete json.proAccessState,delete json.licenseExpiresAt,json={...json,licensedFeatures:["pro"]});''\<close>

definition PatternNotFound :: exn where
  "PatternNotFound =
     Error ''Can't patch pro features, pattern match failed. Get support from https://t.me/gitkrakencrackchat''"

definition AlreadyPatched :: exn where
  "AlreadyPatched = Error ''It's already patched.''"

text \<open>
  The search expression is built from two regular expressions with a lookbehind; the
  substitution \<^verbatim>\<open>sourceData.replace(searchValue, replaceValue)\<close> is a parameter of the
  model, a function from the text to the text.
\<close>

definition patchDirWithPro :: "(string \<Rightarrow> string) \<Rightarrow> patcher \<Rightarrow> world \<Rightarrow> exn option \<times> world" where
  "patchDirWithPro replace this w =
     (let bundlePath = path_join (dir this) ''src/main/static/main.bundle.js'' in
      case readFileSync bundlePath w of
        Inl e \<Rightarrow> (Some e, w)
      | Inr sourceData \<Rightarrow>
          (let sourcePatchedData = replace sourceData in
           if sourceData = sourcePatchedData then
             (if indexOf sourceData patchedPattern < 0 then (Some PatternNotFound, w)
              else (Some AlreadyPatched, w))
           else writeFileSync bundlePath sourcePatchedData w))"

subsection \<open>\<^verbatim>\<open>patchDirWithPatch\<close>\<close>

text \<open>A parsed unit of a unified diff, as the \<^verbatim>\<open>diff\<close> package produces it.
  \<^verbatim>\<open>diff.applyPatch\<close> is a parameter of the model: it returns the patched text, or
  \<^verbatim>\<open>false\<close> (here \<open>None\<close>) when the patch does not apply.\<close>

record hunk =
  oldStart :: nat
  oldLines :: nat
  newStart :: nat
  newLines :: nat
  lines :: "string list"

record parsedDiff =
  oldFileName :: string
  newFileName :: string
  hunks :: "hunk list"

definition patchDirWithPatch ::
  "(string \<Rightarrow> parsedDiff \<Rightarrow> string option) \<Rightarrow> patcher \<Rightarrow> parsedDiff \<Rightarrow> world \<Rightarrow> exn option \<times> world" where
  "patchDirWithPatch applyPatch this patch w =
     (case readFileSync (path_join (dir this) (oldFileName patch)) w of
        Inl e \<Rightarrow> (Some e, w)
      | Inr sourceData \<Rightarrow>
          (case applyPatch sourceData patch of
             None \<Rightarrow> (Some (Error (''Can't patch '' @ oldFileName patch)), w)
           | Some sourcePatchedData \<Rightarrow>
               (case (if oldFileName patch \<noteq> newFileName patch
                      then unlinkSync (path_join (dir this) (oldFileName patch)) w
                      else (None, w)) of
                  (Some e, w') \<Rightarrow> (Some e, w')
                | (None, w') \<Rightarrow>
                    writeFileSync (path_join (dir this) (newFileName patch)) sourcePatchedData w')))"

section \<open>Re-extraction\<close>

text \<open>
  A listed file name is well listed when it names an entry of the header and its
  destination is the header path of that entry below the destination directory (as it
  is for names without backslashes and without \<^verbatim>\<open>.\<close> and \<^verbatim>\<open>..\<close> segments).
\<close>

definition wellListed :: "path \<Rightarrow> node \<Rightarrow> string \<Rightarrow> bool" where
  "wellListed destDir header filename =
     (resolve_spec header (path_parts (normalizeFilename filename)) \<noteq> None \<and>
      path_join destDir (normalizeFilename filename) =
        destDir @ path_parts (normalizeFilename filename))"

text \<open>
  The trees on which the iteration for an entry has nothing left to do. For a
  directory entry the destination exists. For a file entry either the destination is a
  regular file, or it does not exist and the entry is externally stored or cannot be
  written: the codec gives no buffer, or the parent directory cannot be made (it is
  inaccessible, or a regular file lies on the way), or the parent is there and the
  destination itself is inaccessible.
\<close>

definition cannotWrite :: "asarlib \<Rightarrow> path \<Rightarrow> string \<Rightarrow> path \<Rightarrow> fsnode \<Rightarrow> (path \<rightharpoonup> string) \<Rightarrow> bool" where
  "cannotWrite lib asarFile nf d t fl =
     (case extractFile lib asarFile nf of
        Inr (Buffer b) \<Rightarrow>
          fl (dirname d) \<noteq> None
          \<or> (\<exists>q c. prefix q (dirname d) \<and> entry_at t q = Some (KFile c))
          \<or> (entry_at t (dirname d) = Some KDir \<and> fl d \<noteq> None)
      | _ \<Rightarrow> True)"

definition settledT :: "asarlib \<Rightarrow> path \<Rightarrow> path \<Rightarrow> node \<Rightarrow> string \<Rightarrow> fsnode \<Rightarrow> (path \<rightharpoonup> string) \<Rightarrow> bool" where
  "settledT lib asarFile destDir header filename t fl =
     (let nf = normalizeFilename filename;
          d = path_join destDir nf;
          entry = getAsarEntryInfo header nf
      in if isDir entry then fl d = None \<and> entry_at t d \<noteq> None
         else (fl d = None \<and> (\<exists>c. entry_at t d = Some (KFile c)))
              \<or> ((fl d \<noteq> None \<or> entry_at t d = None) \<and>
                  (isUnpacked entry \<or> cannotWrite lib asarFile nf d t fl)))"

definition settled :: "asarlib \<Rightarrow> path \<Rightarrow> path \<Rightarrow> node \<Rightarrow> string \<Rightarrow> world \<Rightarrow> bool" where
  "settled lib asarFile destDir header filename w =
     settledT lib asarFile destDir header filename (tree w) (faults w)"

text \<open>
  Two paths are apart when neither lies at or below the other.
\<close>

definition apart :: "path \<Rightarrow> path \<Rightarrow> bool" where
  "apart a b = (\<not> prefix a b \<and> \<not> prefix b a)"

text \<open>
  What a step of the extraction leaves alone, seen from the pre-seed copy of \<open>srcDir\<close>
  into \<open>destDir\<close>: the faults, everything at and below \<open>srcDir\<close>, and every copy, that is,
  every path below \<open>destDir\<close> that holds what \<open>srcDir\<close> holds at the same relative path (a
  directory for a directory, a file with the same content for a file).
\<close>

definition keeps :: "path \<Rightarrow> path \<Rightarrow> world \<Rightarrow> world \<Rightarrow> bool" where
  "keeps srcDir destDir w w' =
     (faults w' = faults w
      \<and> (\<forall>q. entry_at (tree w') (srcDir @ q) = entry_at (tree w) (srcDir @ q))
      \<and> (\<forall>q. entry_at (tree w) (srcDir @ q) \<noteq> None \<longrightarrow>
             entry_at (tree w) (destDir @ q) = entry_at (tree w) (srcDir @ q) \<longrightarrow>
             entry_at (tree w') (destDir @ q) = entry_at (tree w) (destDir @ q)))"

text \<open>An entry of the copy has passed when its \<^verbatim>\<open>try\<close> block threw nothing or an error that
  the \<^verbatim>\<open>catch\<close> clause skips.\<close>

definition passed :: "exn option \<Rightarrow> bool" where
  "passed r = (case r of None \<Rightarrow> True | Some e \<Rightarrow> skippable e)"

section \<open>Example inputs\<close>

text \<open>An archive \<^verbatim>\<open>/opt/app.asar\<close> with the header \<^const>\<open>example_header\<close>, whose codec
  returns the bytes of \<^verbatim>\<open>app/main.js\<close> and whose bulk extraction stops at the missing
  external file \<^verbatim>\<open>app/addon.node\<close>.\<close>

definition example_asar :: path where
  "example_asar = [''opt'', ''app.asar'']"

definition example_dest :: path where
  "example_dest = [''opt'', ''app'']"

definition example_lib :: asarlib where
  "example_lib =
     \<lparr>listPackage = (\<lambda>a. Inr [''/app'', ''/app/main.js'', ''/app/addon.node'']),
      readArchiveHeaderSync = (\<lambda>a. Inr example_header),
      extractFile = (\<lambda>a f. if f = ''app/main.js'' then Inr (Buffer ''main()'')
                            else Inl (Error ''not in archive'')),
      extractAll = (\<lambda>a d w.
        (Some (io_error ''ENOENT'' [''opt'', ''app.asar.unpacked'', ''app'', ''addon.node'']), w))\<rparr>"

definition example_world :: world where
  "example_world =
     \<lparr>tree = Dir [(''opt'', Dir [(''app.asar'', File ''asar'')])],
      faults = Map.empty,
      console = []\<rparr>"

text \<open>An external-storage directory \<^verbatim>\<open>/src\<close> with two files, of which \<^verbatim>\<open>a\<close> cannot be
  accessed, and an empty destination \<^verbatim>\<open>/dst\<close>.\<close>

definition copy_world :: "string \<Rightarrow> world" where
  "copy_world c =
     \<lparr>tree = Dir [(''src'', Dir [(''a'', File ''A''), (''b'', File ''B'')]), (''dst'', Dir [])],
      faults = [[''src'', ''a''] \<mapsto> c],
      console = []\<rparr>"

text \<open>A destination tree in which directories stand where the archive declares the
  files \<^verbatim>\<open>app/main.js\<close> and \<^verbatim>\<open>app/addon.node\<close>, and one in which \<^verbatim>\<open>app/main.js\<close> is
  already extracted.\<close>

definition stale_world :: world where
  "stale_world =
     \<lparr>tree = Dir [(''opt'', Dir [(''app'', Dir [(''app'',
               Dir [(''main.js'', Dir [(''old'', File ''x'')]), (''addon.node'', Dir [])])])])],
      faults = Map.empty,
      console = []\<rparr>"

text \<open>The same two stale directories, each holding a file that cannot be removed.\<close>

definition locked_world :: world where
  "locked_world =
     \<lparr>tree = Dir [(''opt'', Dir [(''app'', Dir [(''app'',
               Dir [(''main.js'', Dir [(''old'', File ''x'')]),
                    (''addon.node'', Dir [(''build'', File ''y'')])])])])],
      faults = [[''opt'', ''app'', ''app'', ''main.js'', ''old''] \<mapsto> ''EACCES'',
                [''opt'', ''app'', ''app'', ''addon.node'', ''build''] \<mapsto> ''EACCES''],
      console = []\<rparr>"

definition extracted_world :: world where
  "extracted_world =
     \<lparr>tree = Dir [(''opt'', Dir [(''app'', Dir [(''app'', Dir [(''main.js'', File ''main()'')])])])],
      faults = Map.empty,
      console = []\<rparr>"


text \<open>A codec that throws on every entry.\<close>

definition throwing_lib :: asarlib where
  "throwing_lib = example_lib\<lparr>extractFile := \<lambda>a f. Inl (Error ''corrupt entry'')\<rparr>"

text \<open>An extracted application with a bundle to patch, a substitution that rewrites
  one particular text, and a diff library that applies no patch.\<close>

definition bundle_world :: "string \<Rightarrow> world" where
  "bundle_world text =
     \<lparr>tree = Dir [(''app'', Dir [(''src'', Dir [(''main'', Dir [(''static'',
               Dir [(''main.bundle.js'', File text)])])])])],
      faults = Map.empty,
      console = []\<rparr>"

definition example_patcher :: patcher where
  "example_patcher = \<lparr>asar = [''app.asar''], dir = [''app''], features = [''pro'']\<rparr>"

definition example_replace :: "string \<Rightarrow> string" where
  "example_replace text = (if text = ''return secure};'' then ''var json=secure;'' @ patchedPattern else text)"

definition example_diff :: parsedDiff where
  "example_diff =
     \<lparr>oldFileName = ''src/main/static/main.bundle.js'',
      newFileName = ''src/main/static/main.bundle.js'',
      hunks = [\<lparr>oldStart = 1, oldLines = 1, newStart = 1, newLines = 1,
                lines = [''-absent line'', ''+new line'']\<rparr>,
               \<lparr>oldStart = 9, oldLines = 1, newStart = 9, newLines = 1,
                lines = [''-other absent line'', ''+other new line'']\<rparr>]\<rparr>"

definition linux_env :: env where
  "linux_env = \<lparr>CURRENT_PLATFORM = linux, homedir = [''home'', ''u''], natsort_desc = rev\<rparr>"

definition installed_world :: world where
  "installed_world =
     \<lparr>tree = Dir [(''opt'', Dir [(''gitkraken'', Dir [(''resources'',
               Dir [(''app.asar'', File ''asar'')])])])],
      faults = Map.empty,
      console = []\<rparr>"

text \<open>
  An archive with a second external file, \<^verbatim>\<open>app/native.node\<close>, which the
  external-storage directory holds, while \<^verbatim>\<open>app/addon.node\<close> is missing from it. The bulk
  extraction creates \<^verbatim>\<open>app\<close>, writes \<^verbatim>\<open>app/main.js\<close>, copies \<^verbatim>\<open>app/native.node\<close> and
  stops at the missing file. \<open>seeded_world_extracted\<close> is the world after one extraction.
\<close>

definition seeded_header :: node where
  "seeded_header =
     Node (Some [''app'' \<mapsto> Node (Some [''main.js'' \<mapsto> Node None None,
                                         ''native.node'' \<mapsto> Node None (Some True),
                                         ''addon.node'' \<mapsto> Node None (Some True)])
                               (Some True)])
          None"

definition seeded_lib :: asarlib where
  "seeded_lib =
     \<lparr>listPackage = (\<lambda>a. Inr [''/app'', ''/app/main.js'', ''/app/native.node'', ''/app/addon.node'']),
      readArchiveHeaderSync = (\<lambda>a. Inr seeded_header),
      extractFile = (\<lambda>a f. if f = ''app/main.js'' then Inr (Buffer ''main()'')
                            else Inl (Error ''not in archive'')),
      extractAll = (\<lambda>a d w.
        case ensureDirSync (d @ [''app'']) w of
          (Some e, w1) \<Rightarrow> (Some e, w1)
        | (None, w1) \<Rightarrow>
            (case writeFileSync (d @ [''app'', ''main.js'']) ''main()'' w1 of
               (Some e, w2) \<Rightarrow> (Some e, w2)
             | (None, w2) \<Rightarrow>
                 (case copyFileSync (path_suffix a ''.unpacked'' @ [''app'', ''native.node''])
                         (d @ [''app'', ''native.node'']) w2 of
                    (Some e, w3) \<Rightarrow> (Some e, w3)
                  | (None, w3) \<Rightarrow>
                      (Some (io_error ''ENOENT''
                         (path_suffix a ''.unpacked'' @ [''app'', ''addon.node''])), w3))))\<rparr>"

definition seeded_world :: world where
  "seeded_world =
     \<lparr>tree = Dir [(''opt'', Dir [(''app.asar'', File ''asar''),
               (''app.asar.unpacked'', Dir [(''app'', Dir [(''native.node'', File ''ELF'')])])])],
      faults = Map.empty,
      console = []\<rparr>"

definition seeded_world_copied :: world where
  "seeded_world_copied =
     \<lparr>tree = Dir [(''opt'', Dir [(''app.asar'', File ''asar''),
               (''app.asar.unpacked'', Dir [(''app'', Dir [(''native.node'', File ''ELF'')])]),
               (''app'', Dir [(''app'', Dir [(''native.node'', File ''ELF'')])])])],
      faults = Map.empty,
      console = []\<rparr>"

definition seeded_world_extracted :: world where
  "seeded_world_extracted =
     \<lparr>tree = Dir [(''opt'', Dir [(''app.asar'', File ''asar''),
               (''app.asar.unpacked'', Dir [(''app'', Dir [(''native.node'', File ''ELF'')])]),
               (''app'', Dir [(''app'', Dir [(''native.node'', File ''ELF''),
                                             (''main.js'', File ''main()'')])])])],
      faults = Map.empty,
      console = [fallbackWarning, ''Warning: Skipping missing unpacked file: app/addon.node'']\<rparr>"

text \<open>A Windows profile in which \<^verbatim>\<open>AppData/Local/gitkraken\<close> is a regular file.\<close>

definition windows_env :: env where
  "windows_env = \<lparr>CURRENT_PLATFORM = windows, homedir = [''home'', ''u''], natsort_desc = rev\<rparr>"

definition windows_world :: world where
  "windows_world =
     \<lparr>tree = Dir [(''home'', Dir [(''u'', Dir [(''AppData'', Dir [(''Local'',
               Dir [(''gitkraken'', File ''x'')])])])])],
      faults = Map.empty,
      console = []\<rparr>"

section \<open>Properties of the string functions\<close>

lemma split_sep_nonempty: "split_on sep s \<noteq> []"
  by (induction s) (auto split: list.splits)

lemma split_sep_no_sep: "\<forall>c \<in> set s. \<not> is_sep c \<Longrightarrow> split_sep s = [s]"
  by (induction s) (auto split: list.splits)

lemma split_sep_append:
  "is_sep c \<Longrightarrow> split_sep (a @ c # b) = split_sep a @ split_sep b"
proof (induction a)
  case Nil
  then show ?case by simp
next
  case (Cons x a)
  then show ?case
    using split_sep_nonempty [of is_sep a] split_sep_nonempty [of is_sep b]
    by (cases "split_sep a") (auto split: list.splits)
qed

lemma split_sep_pieces: "p \<in> set (split_sep s) \<Longrightarrow> c \<in> set p \<Longrightarrow> \<not> is_sep c"
proof (induction s arbitrary: p)
  case Nil
  then show ?case by simp
next
  case (Cons x s)
  show ?case
  proof (cases "is_sep x")
    case True
    with Cons show ?thesis by auto
  next
    case False
    obtain q qs where q: "split_sep s = q # qs"
      using split_sep_nonempty [of is_sep s] by (cases "split_sep s") auto
    with False Cons.prems have "p = x # q \<or> p \<in> set qs" by auto
    then show ?thesis
    proof
      assume "p = x # q"
      with Cons.prems(2) False Cons.IH [of q] q show ?thesis by auto
    next
      assume "p \<in> set qs"
      with Cons.IH [of p] Cons.prems(2) q show ?thesis by auto
    qed
  qed
qed

lemma path_parts_append:
  "is_sep c \<Longrightarrow> path_parts (a @ c # b) = path_parts a @ path_parts b"
  by (simp add: path_parts_def split_sep_append)

lemma path_parts_segment:
  "s \<noteq> [] \<Longrightarrow> \<forall>c \<in> set s. \<not> is_sep c \<Longrightarrow> path_parts s = [s]"
  by (simp add: path_parts_def split_sep_no_sep)

lemma path_parts_Nil: "path_parts [] = []"
  by (simp add: path_parts_def)

lemma path_parts_sound:
  "p \<in> set (path_parts s) \<Longrightarrow> p \<noteq> [] \<and> (\<forall>c \<in> set p. \<not> is_sep c)"
  using split_sep_pieces by (auto simp: path_parts_def)

lemma indexOf_from_neg:
  "0 \<le> i \<Longrightarrow> (indexOf_from s pat i < 0) = (\<not> sublist pat s)"
proof (induction s arbitrary: i)
  case Nil
  then show ?case by auto
next
  case (Cons c cs)
  have "sublist pat (c # cs) = (prefix pat (c # cs) \<or> sublist pat cs)"
    by (rule sublist_Cons_right)
  with Cons show ?case by auto
qed

lemma indexOf_from_range: "0 \<le> i \<Longrightarrow> indexOf_from s pat i = - 1 \<or> 0 \<le> indexOf_from s pat i"
  by (induction s arbitrary: i) auto

lemma indexOf_neg: "(indexOf s pat < 0) = (\<not> sublist pat s)"
  by (simp add: indexOf_def indexOf_from_neg)

lemma str_includes_sublist: "str_includes s pat = sublist pat s"
  using indexOf_from_neg [of 0 s pat] indexOf_from_range [of 0 s pat]
  by (auto simp: str_includes_def indexOf_def)

section \<open>The header lookup\<close>

lemma resolve_spec_append:
  "resolve_spec nd (xs @ ys) =
     (case resolve_spec nd xs of None \<Rightarrow> None | Some n \<Rightarrow> resolve_spec n ys)"
  by (induction xs arbitrary: nd) (auto split: option.splits)

text \<open>On the own keys the loop is the lookup of the specification.\<close>

lemma walk_own: "resolve_spec nd segs = Some n \<Longrightarrow> walk nd segs = Inr n"
  by (induction segs arbitrary: nd)
    (auto simp: child_of_def getProperty_def split: option.splits)

text \<open>Where the specification finds nothing, the loop either returns early or ends on
  an inherited member.\<close>

lemma walk_inherited:
  "resolve_spec nd segs = None \<Longrightarrow>
     walk nd segs = Inl notFound \<or> walk nd segs = Inr (Node None None)"
proof (induction segs arbitrary: nd)
  case Nil
  then show ?case by simp
next
  case (Cons part rest)
  show ?case
  proof (cases "child_of nd part")
    case (Some child)
    with Cons.prems have "resolve_spec child rest = None" by simp
    from Cons.IH [OF this] Some show ?thesis
      by (auto simp: child_of_def getProperty_def split: option.splits)
  next
    case None
    then show ?thesis
      by (cases rest) (auto simp: child_of_def getProperty_def split: option.splits)
  qed
qed

lemma walk_plain:
  "\<forall>seg \<in> set segs. seg \<notin> set objectPrototype \<Longrightarrow>
     walk nd segs = (case resolve_spec nd segs of None \<Rightarrow> Inl notFound | Some n \<Rightarrow> Inr n)"
  by (induction segs arbitrary: nd)
    (auto simp: child_of_def getProperty_def split: option.splits)

lemma getAsarEntryInfo_spec:
  "resolve_spec header (path_parts filePath) \<noteq> None \<Longrightarrow>
     getAsarEntryInfo header filePath = lookup_spec header (path_parts filePath)"
  by (auto simp: getAsarEntryInfo_def getProperty_def lookup_spec_def walk_own)

text \<open>
  For a path none of whose segments is the name of a member of \<^verbatim>\<open>Object.prototype\<close>,
  \<^verbatim>\<open>getAsarEntryInfo\<close> is the lookup of the specification: it answers \<^verbatim>\<open>exists = false\<close>
  as soon as a segment is not among the children of the node reached so far, and
  otherwise gives the flags of the node the walk ends on.
\<close>

lemma getAsarEntryInfo_plain:
  assumes "\<forall>seg \<in> set (path_parts filePath). seg \<notin> set objectPrototype"
  shows "getAsarEntryInfo header filePath = lookup_spec header (path_parts filePath)"
  using walk_plain [OF assms, of header]
  by (simp add: getAsarEntryInfo_def getProperty_def lookup_spec_def notFound_def split: option.splits)

lemma isDir_resolve:
  "isDir (getAsarEntryInfo header nf) =
     (\<exists>m. resolve_spec header (path_parts nf) = Some m \<and> files m \<noteq> None)"
proof (cases "resolve_spec header (path_parts nf)")
  case None
  with walk_inherited [OF None] show ?thesis
    by (auto simp: getAsarEntryInfo_def getProperty_def notFound_def)
next
  case (Some m)
  with walk_own [OF Some] show ?thesis
    by (simp add: getAsarEntryInfo_def getProperty_def)
qed


section \<open>Properties of the filesystem operations\<close>

lemma entry_at_Nil [simp]: "entry_at t [] = Some (kind_of t)"
  by (simp add: entry_at_def)

lemma entry_at_File_Cons [simp]: "entry_at (File c) (s # p) = None"
  by (simp add: entry_at_def)

lemma entry_at_Dir_Cons:
  "entry_at (Dir es) (s # p) = (case map_of es s of None \<Rightarrow> None | Some ch \<Rightarrow> entry_at ch p)"
  by (simp add: entry_at_def split: option.splits)

lemma kind_of_simps [simp]: "kind_of (File c) = KFile c" "kind_of (Dir es) = KDir"
  by (simp_all add: kind_of_def)

lemma entry_at_chain: "entry_at (chain p) q = (if prefix q p then Some KDir else None)"
proof (induction p arbitrary: q)
  case Nil
  then show ?case by (cases q) (auto simp: entry_at_Dir_Cons)
next
  case (Cons s p)
  then show ?case by (cases q) (auto simp: entry_at_Dir_Cons)
qed

lemma entry_at_ancestor:
  "entry_at t (p @ q) \<noteq> None \<Longrightarrow> q \<noteq> [] \<Longrightarrow> entry_at t p = Some KDir"
proof (induction p arbitrary: t)
  case Nil
  then show ?case by (cases t; cases q) auto
next
  case (Cons s p)
  then show ?case by (cases t) (auto simp: entry_at_Dir_Cons split: option.splits)
qed

lemma entry_at_mkdirp:
  "mkdirp t p = Inr t' \<Longrightarrow> entry_at t' q = (if prefix q p then Some KDir else entry_at t q)"
proof (induction p arbitrary: t t' q)
  case Nil
  then show ?case by (cases t; cases q) auto
next
  case (Cons s p)
  then obtain es where t: "t = Dir es" by (cases t) auto
  show ?case
  proof (cases q)
    case Nil
    with Cons.prems t show ?thesis by (auto split: option.splits sum.splits)
  next
    case q: (Cons s' q')
    show ?thesis
    proof (cases "map_of es s")
      case None
      with Cons.prems t q show ?thesis
        by (auto simp: entry_at_Dir_Cons update_conv' entry_at_chain)
    next
      case (Some child)
      with Cons.prems t obtain child' where c: "mkdirp child p = Inr child'"
        and t': "t' = Dir (AList.update s child' es)"
        by (auto split: sum.splits)
      from Cons.IH [OF c, of q'] Some t t' q show ?thesis
        by (auto simp: entry_at_Dir_Cons update_conv')
    qed
  qed
qed

lemma mkdirp_ok:
  "(\<exists>t'. mkdirp t p = Inr t') = (\<forall>q c. prefix q p \<longrightarrow> entry_at t q \<noteq> Some (KFile c))"
proof (induction p arbitrary: t)
  case Nil
  then show ?case by (cases t) auto
next
  case (Cons s p)
  show ?case
  proof (cases t)
    case (File c)
    then show ?thesis by (auto intro: exI [of _ "[]"])
  next
    case (Dir es)
    show ?thesis
    proof (cases "map_of es s")
      case None
      have "entry_at t q \<noteq> Some (KFile c)" if "prefix q (s # p)" for q c
        using that Dir None by (cases q) (auto simp: entry_at_Dir_Cons)
      with Dir None show ?thesis by auto
    next
      case (Some child)
      have "(\<forall>q c. prefix q (s # p) \<longrightarrow> entry_at t q \<noteq> Some (KFile c)) =
            (\<forall>q c. prefix q p \<longrightarrow> entry_at child q \<noteq> Some (KFile c))"
      proof (intro iffI allI impI)
        fix q c assume a: "\<forall>q c. prefix q (s # p) \<longrightarrow> entry_at t q \<noteq> Some (KFile c)"
          and "prefix q p"
        then have "entry_at t (s # q) \<noteq> Some (KFile c)" by auto
        with Dir Some show "entry_at child q \<noteq> Some (KFile c)"
          by (simp add: entry_at_Dir_Cons)
      next
        fix q c assume a: "\<forall>q c. prefix q p \<longrightarrow> entry_at child q \<noteq> Some (KFile c)"
          and "prefix q (s # p)"
        with Dir Some show "entry_at t q \<noteq> Some (KFile c)"
          by (cases q) (auto simp: entry_at_Dir_Cons)
      qed
      with Cons.IH [of child] Dir Some show ?thesis
        by (auto split: sum.splits)
    qed
  qed
qed

lemma entry_at_del:
  "p \<noteq> [] \<Longrightarrow> entry_at (del t p) q = (if prefix p q then None else entry_at t q)"
proof (induction p arbitrary: t q)
  case Nil
  then show ?case by simp
next
  case (Cons s p)
  show ?case
  proof (cases t)
    case (File c)
    then show ?thesis by (cases q) auto
  next
    case (Dir es)
    show ?thesis
    proof (cases q)
      case Nil
      with Dir show ?thesis by (auto split: option.splits)
    next
      case q: (Cons s' q')
      show ?thesis
      proof (cases "p = []")
        case True
        with Dir q show ?thesis
          by (auto simp: entry_at_Dir_Cons delete_conv')
      next
        case False
        with Cons.IH [of _ q'] Dir q show ?thesis
          by (auto simp: entry_at_Dir_Cons update_conv' split: option.splits)
      qed
    qed
  qed
qed

lemma entry_at_put:
  "put t p c = Inr t' \<Longrightarrow> entry_at t' q = (if q = p then Some (KFile c) else entry_at t q)"
proof (induction p arbitrary: t t' q)
  case Nil
  then show ?case by (cases t; cases q) auto
next
  case (Cons s p)
  then obtain es where t: "t = Dir es" by (cases t) auto
  show ?case
  proof (cases q)
    case Nil
    with Cons.prems t show ?thesis by (auto split: option.splits sum.splits if_splits)
  next
    case q: (Cons s' q')
    show ?thesis
    proof (cases "map_of es s")
      case None
      with Cons.prems t q show ?thesis
        by (cases q') (auto simp: entry_at_Dir_Cons update_conv' split: if_splits)
    next
      case (Some child)
      with Cons.prems t obtain child' where c: "put child p c = Inr child'"
        and t': "t' = Dir (AList.update s child' es)"
        by (auto split: sum.splits)
      from Cons.IH [OF c, of q'] Some t t' q show ?thesis
        by (auto simp: entry_at_Dir_Cons update_conv')
    qed
  qed
qed

lemma put_ok:
  "(\<exists>t'. put t p c = Inr t') =
     (entry_at t p \<noteq> Some KDir \<and> (p \<noteq> [] \<longrightarrow> entry_at t (butlast p) = Some KDir))"
proof (induction p arbitrary: t)
  case Nil
  then show ?case by (cases t) auto
next
  case (Cons s p)
  show ?case
  proof (cases t)
    case (File c)
    then show ?thesis by (cases p) auto
  next
    case (Dir es)
    show ?thesis
    proof (cases "map_of es s")
      case None
      with Dir show ?thesis by (cases p) (auto simp: entry_at_Dir_Cons)
    next
      case (Some child)
      with Cons.IH [of child] Dir show ?thesis
        by (cases p) (auto simp: entry_at_Dir_Cons split: sum.splits)
    qed
  qed
qed

section \<open>The fallback trigger\<close>

lemmas eval_defs =
  extractAsarWithUnpacked_def example_lib_def example_asar_def example_dest_def
  example_world_def path_suffix_def existsSync_def io_error_def render_def
  missingUnpacked_def str_includes_def indexOf_def extractAsarManually_def
  extractEntry_def Let_def normalizeFilename_def is_sep_def path_join_def
  getAsarEntryInfo_def getProperty_def path_parts_def example_header_def ensureDirSync_def warn_def
  fallbackWarning_def statSync_def extractMissing_def tryExtractFile_def dirname_def
  writeFileSync_def notFound_def Error_def isFile_def isDirectory_def removeSync_def
  readdirSync_def readFileSync_def copyFileSync_def skippable_def unlinkSync_def

lemma missingUnpacked_iff:
  "missingUnpacked err =
     (code err = Some ''ENOENT'' \<and> (\<exists>p. epath err = Some p \<and> sublist ''.unpacked'' p))"
  by (auto simp: missingUnpacked_def str_includes_sublist split: option.splits)

text \<open>
  Claim C1. Let the pre-seed copy complete and the bulk extraction
  \<^verbatim>\<open>asar.extractAll\<close> throw \<open>err\<close>, leaving the world \<open>w2\<close>. If \<open>err\<close> has the code
  \<^verbatim>\<open>ENOENT\<close> and a path in which \<^verbatim>\<open>.unpacked\<close> occurs, the result of the extraction is
  the result of the manual per-entry extraction, started on \<open>w2\<close> after the fallback
  warning. For every other error the extraction throws \<open>err\<close> itself and leaves \<open>w2\<close> as
  it is: nothing of the manual extraction has run.
\<close>

theorem extract_fallback_trigger:
  assumes "(if existsSync (path_suffix asarFile ''.unpacked'') w
            then copyUnpackedFiles n (path_suffix asarFile ''.unpacked'') destDir w
            else Some (None, w)) = Some (None, w1)"
    and "extractAll lib asarFile destDir w1 = (Some err, w2)"
  shows "extractAsarWithUnpacked n lib asarFile destDir w =
           (if code err = Some ''ENOENT'' \<and> (\<exists>p. epath err = Some p \<and> sublist ''.unpacked'' p)
            then Some (extractAsarManually lib asarFile destDir
                         (path_suffix asarFile ''.unpacked'') (warn fallbackWarning w2))
            else Some (Some err, w2))"
  using assms unfolding extractAsarWithUnpacked_def Let_def missingUnpacked_iff [symmetric]
  by simp

theorem extract_fallback_trigger_witness:
  "extractAsarWithUnpacked 1 example_lib example_asar example_dest example_world =
     Some (None,
       \<lparr>tree = Dir [(''opt'', Dir [(''app.asar'', File ''asar''),
                 (''app'', Dir [(''app'', Dir [(''main.js'', File ''main()'')])])])],
        faults = Map.empty,
        console = [fallbackWarning,
                   ''Warning: Skipping missing unpacked file: app/addon.node'']\<rparr>)
   \<and> extractAsarWithUnpacked 1
         (example_lib\<lparr>extractAll := \<lambda>a d w. (Some (io_error ''ENOENT'' [''opt'', ''app'', ''x'']), w)\<rparr>)
         example_asar example_dest example_world =
     Some (Some (io_error ''ENOENT'' [''opt'', ''app'', ''x'']), example_world)"
proof -
  have pre: "(if existsSync (path_suffix example_asar ''.unpacked'') example_world
              then copyUnpackedFiles 1 (path_suffix example_asar ''.unpacked'') example_dest
                     example_world
              else Some (None, example_world)) = Some (None, example_world)"
    by (simp add: eval_defs)
  have bulk1: "extractAll example_lib example_asar example_dest example_world =
      (Some (io_error ''ENOENT'' [''opt'', ''app.asar.unpacked'', ''app'', ''addon.node'']),
       example_world)"
    by (simp add: example_lib_def)
  have triggers: "sublist ''.unpacked'' (render [''opt'', ''app.asar.unpacked'', ''app'', ''addon.node''])"
    unfolding str_includes_sublist [symmetric] by (simp add: eval_defs)
  have manual: "extractAsarManually example_lib example_asar example_dest
        (path_suffix example_asar ''.unpacked'') (warn fallbackWarning example_world) =
      (None,
       \<lparr>tree = Dir [(''opt'', Dir [(''app.asar'', File ''asar''),
                 (''app'', Dir [(''app'', Dir [(''main.js'', File ''main()'')])])])],
        faults = Map.empty,
        console = [fallbackWarning,
                   ''Warning: Skipping missing unpacked file: app/addon.node'']\<rparr>)"
    by (simp add: eval_defs)
  have 1: "extractAsarWithUnpacked 1 example_lib example_asar example_dest example_world =
      Some (extractAsarManually example_lib example_asar example_dest
        (path_suffix example_asar ''.unpacked'') (warn fallbackWarning example_world))"
    using extract_fallback_trigger [OF pre bulk1] triggers by (simp add: io_error_def)
  let ?lib = "example_lib\<lparr>extractAll := \<lambda>a d w. (Some (io_error ''ENOENT'' [''opt'', ''app'', ''x'']), w)\<rparr>"
  have bulk2: "extractAll ?lib example_asar example_dest example_world =
      (Some (io_error ''ENOENT'' [''opt'', ''app'', ''x'']), example_world)"
    by simp
  have other: "\<not> sublist ''.unpacked'' (render [''opt'', ''app'', ''x''])"
    unfolding str_includes_sublist [symmetric] by (simp add: eval_defs)
  have 2: "extractAsarWithUnpacked 1 ?lib example_asar example_dest example_world =
      Some (Some (io_error ''ENOENT'' [''opt'', ''app'', ''x'']), example_world)"
    using extract_fallback_trigger [of example_asar example_world 1 example_dest example_world
        ?lib, OF pre bulk2] other
    by (simp add: io_error_def)
  show ?thesis
    using 1 2 manual by simp
qed

section \<open>The copy of the external-storage directory\<close>

lemma copyItems_not_skippable:
  "copyItems n srcDir destDir items w = Some (Some err, w') \<Longrightarrow> \<not> skippable err"
proof (induction items arbitrary: w)
  case Nil
  then show ?case by simp
next
  case (Cons item items)
  show ?case
  proof (cases "copyEntry n (srcDir @ [item]) (destDir @ [item]) w")
    case None
    with Cons.prems show ?thesis by simp
  next
    case (Some r)
    obtain e w1 where r: "r = (e, w1)" by (cases r)
    show ?thesis
    proof (cases e)
      case None
      with Some r Cons.prems Cons.IH [of w1] show ?thesis by simp
    next
      case (Some e1)
      with \<open>copyEntry n (srcDir @ [item]) (destDir @ [item]) w = Some r\<close> r Cons.prems
        Cons.IH [of "warn (''Warning: Skipping inaccessible file: '' @ render (srcDir @ [item])) w1"]
      show ?thesis by (cases "skippable e1") auto
    qed
  qed
qed

lemma copyUnpackedFiles_skippable:
  "copyUnpackedFiles n srcDir destDir w = Some (Some err, w') \<Longrightarrow> skippable err \<Longrightarrow>
     readdirSync srcDir w = Inl err \<and> w' = w"
proof (cases n)
  case 0
  assume "copyUnpackedFiles n srcDir destDir w = Some (Some err, w')"
  with 0 show ?thesis by simp
next
  case (Suc m)
  assume a: "copyUnpackedFiles n srcDir destDir w = Some (Some err, w')" and s: "skippable err"
  show ?thesis
  proof (cases "readdirSync srcDir w")
    case (Inl e)
    with a Suc show ?thesis by (auto split: if_splits)
  next
    case (Inr items)
    with a Suc have "copyItems m srcDir destDir items w = Some (Some err, w')"
      by (auto split: if_splits)
    with s copyItems_not_skippable show ?thesis by blast
  qed
qed

text \<open>
  Claim C7. When the source directory does not exist, \<^verbatim>\<open>copyUnpackedFiles\<close> returns at
  once and changes nothing. Otherwise, when the \<^verbatim>\<open>try\<close> block of an entry throws an error
  whose code is \<^verbatim>\<open>ENOENT\<close>, \<^verbatim>\<open>EPERM\<close> or \<^verbatim>\<open>EACCES\<close>, a warning naming the entry is
  printed and the loop goes on with the remaining entries; an error with any other code
  ends the copy and is thrown to the caller. An entry whose block does not throw is
  followed by the remaining entries. Hence an error with one of the three codes leaves
  \<^verbatim>\<open>copyUnpackedFiles\<close> only when it comes from listing the source directory itself,
  never from an entry of the walk.
\<close>

theorem copyUnpackedFiles_recovery:
  "(\<not> existsSync srcDir w \<longrightarrow> copyUnpackedFiles (Suc n) srcDir destDir w = Some (None, w))
   \<and> (copyEntry n (srcDir @ [item]) (destDir @ [item]) w = Some (Some err, w') \<longrightarrow>
        copyItems n srcDir destDir (item # items) w =
          (if code err \<in> {Some ''ENOENT'', Some ''EPERM'', Some ''EACCES''}
           then copyItems n srcDir destDir items
                  (warn (''Warning: Skipping inaccessible file: '' @ render (srcDir @ [item])) w')
           else Some (Some err, w')))
   \<and> (copyEntry n (srcDir @ [item]) (destDir @ [item]) w = Some (None, w') \<longrightarrow>
        copyItems n srcDir destDir (item # items) w = copyItems n srcDir destDir items w')
   \<and> (copyUnpackedFiles n srcDir destDir w = Some (Some err, w') \<longrightarrow>
        readdirSync srcDir w = Inl err \<and> w' = w
        \<or> code err \<notin> {Some ''ENOENT'', Some ''EPERM'', Some ''EACCES''})"
proof -
  have sk: "skippable e = (code e \<in> {Some ''ENOENT'', Some ''EPERM'', Some ''EACCES''})" for e
    by (auto simp: skippable_def)
  have a: "\<not> existsSync srcDir w \<longrightarrow> copyUnpackedFiles (Suc n) srcDir destDir w = Some (None, w)"
    by simp
  have b: "copyEntry n (srcDir @ [item]) (destDir @ [item]) w = Some (Some err, w') \<longrightarrow>
        copyItems n srcDir destDir (item # items) w =
          (if code err \<in> {Some ''ENOENT'', Some ''EPERM'', Some ''EACCES''}
           then copyItems n srcDir destDir items
                  (warn (''Warning: Skipping inaccessible file: '' @ render (srcDir @ [item])) w')
           else Some (Some err, w'))"
    using sk [of err] by simp
  have c: "copyEntry n (srcDir @ [item]) (destDir @ [item]) w = Some (None, w') \<longrightarrow>
        copyItems n srcDir destDir (item # items) w = copyItems n srcDir destDir items w'"
    by simp
  have d: "copyUnpackedFiles n srcDir destDir w = Some (Some err, w') \<longrightarrow>
        readdirSync srcDir w = Inl err \<and> w' = w
        \<or> code err \<notin> {Some ''ENOENT'', Some ''EPERM'', Some ''EACCES''}"
    using copyUnpackedFiles_skippable [of n srcDir destDir w err w'] sk [of err] by blast
  from a b c d show ?thesis by blast
qed

theorem copyUnpackedFiles_recovery_witness:
  "copyUnpackedFiles 1 [''nowhere''] [''dst''] (copy_world ''EACCES'') =
     Some (None, copy_world ''EACCES'')
   \<and> copyItems 1 [''src''] [''dst''] [''a'', ''b''] (copy_world ''EACCES'') =
     Some (None,
       \<lparr>tree = Dir [(''src'', Dir [(''a'', File ''A''), (''b'', File ''B'')]),
                    (''dst'', Dir [(''b'', File ''B'')])],
        faults = [[''src'', ''a''] \<mapsto> ''EACCES''],
        console = [''Warning: Skipping inaccessible file: /src/a'']\<rparr>)
   \<and> copyItems 1 [''src''] [''dst''] [''a'', ''b''] (copy_world ''EIO'') =
     Some (Some (io_error ''EIO'' [''src'', ''a'']), copy_world ''EIO'')
   \<and> copyItems 1 [''src''] [''dst''] [''b''] (copy_world ''EACCES'') =
     Some (None,
       \<lparr>tree = Dir [(''src'', Dir [(''a'', File ''A''), (''b'', File ''B'')]),
                    (''dst'', Dir [(''b'', File ''B'')])],
        faults = [[''src'', ''a''] \<mapsto> ''EACCES''],
        console = []\<rparr>)
   \<and> copyUnpackedFiles 2 [''src''] [''dst''] (copy_world ''EIO'') =
     Some (Some (io_error ''EIO'' [''src'', ''a'']), copy_world ''EIO'')
   \<and> (readdirSync [''src''] (copy_world ''EIO'') = Inl (io_error ''EIO'' [''src'', ''a''])
      \<or> code (io_error ''EIO'' [''src'', ''a'']) \<notin> {Some ''ENOENT'', Some ''EPERM'', Some ''EACCES''})"
proof -
  let ?w = "copy_world ''EACCES''"
  let ?v = "copy_world ''EIO''"
  have absent: "\<not> existsSync [''nowhere''] ?w"
    by (simp add: existsSync_def copy_world_def)
  have 1: "copyUnpackedFiles 1 [''nowhere''] [''dst''] ?w = Some (None, ?w)"
    using copyUnpackedFiles_recovery [of "[''nowhere'']" ?w 0 "[''dst'']"] absent by simp
  have thrown: "copyEntry 1 ([''src''] @ [''a'']) ([''dst''] @ [''a'']) ?w =
      Some (Some (io_error ''EACCES'' [''src'', ''a'']), ?w)"
    by (simp add: copyEntry.simps statSync_def copy_world_def)
  have quiet: "copyEntry 1 ([''src''] @ [''b'']) ([''dst''] @ [''b''])
      (warn (''Warning: Skipping inaccessible file: '' @ render ([''src''] @ [''a''])) ?w) =
      Some (None,
       \<lparr>tree = Dir [(''src'', Dir [(''a'', File ''A''), (''b'', File ''B'')]),
                    (''dst'', Dir [(''b'', File ''B'')])],
        faults = [[''src'', ''a''] \<mapsto> ''EACCES''],
        console = [''Warning: Skipping inaccessible file: /src/a'']\<rparr>)"
    by (simp add: copyEntry.simps copy_world_def eval_defs)
  have 2: "copyItems 1 [''src''] [''dst''] [''a'', ''b''] ?w =
      copyItems 1 [''src''] [''dst''] [''b'']
        (warn (''Warning: Skipping inaccessible file: '' @ render ([''src''] @ [''a''])) ?w)"
    using copyUnpackedFiles_recovery [of "[''src'']" ?w 1 "[''dst'']" "''a''"
        "io_error ''EACCES'' [''src'', ''a'']" ?w "[''b'']"] thrown
    by (simp add: io_error_def)
  have 3: "copyItems 1 [''src''] [''dst''] [''b'']
        (warn (''Warning: Skipping inaccessible file: '' @ render ([''src''] @ [''a''])) ?w) =
      Some (None,
       \<lparr>tree = Dir [(''src'', Dir [(''a'', File ''A''), (''b'', File ''B'')]),
                    (''dst'', Dir [(''b'', File ''B'')])],
        faults = [[''src'', ''a''] \<mapsto> ''EACCES''],
        console = [''Warning: Skipping inaccessible file: /src/a'']\<rparr>)"
    using copyUnpackedFiles_recovery [of "[''src'']"
        "warn (''Warning: Skipping inaccessible file: '' @ render ([''src''] @ [''a''])) ?w"
        1 "[''dst'']" "''b''" _ _ "[]"] quiet
    by simp
  have thrown': "copyEntry 1 ([''src''] @ [''a'']) ([''dst''] @ [''a'']) ?v =
      Some (Some (io_error ''EIO'' [''src'', ''a'']), ?v)"
    by (simp add: copyEntry.simps statSync_def copy_world_def)
  have 4: "copyItems 1 [''src''] [''dst''] [''a'', ''b''] ?v =
      Some (Some (io_error ''EIO'' [''src'', ''a'']), ?v)"
    using copyUnpackedFiles_recovery [of "[''src'']" ?v 1 "[''dst'']" "''a''"
        "io_error ''EIO'' [''src'', ''a'']" ?v "[''b'']"] thrown'
    by (simp add: io_error_def)
  have quiet': "copyEntry 1 ([''src''] @ [''b'']) ([''dst''] @ [''b'']) ?w =
      Some (None,
       \<lparr>tree = Dir [(''src'', Dir [(''a'', File ''A''), (''b'', File ''B'')]),
                    (''dst'', Dir [(''b'', File ''B'')])],
        faults = [[''src'', ''a''] \<mapsto> ''EACCES''],
        console = []\<rparr>)"
    by (simp add: copyEntry.simps copy_world_def eval_defs)
  have 5: "copyItems 1 [''src''] [''dst''] [''b''] ?w =
      Some (None,
       \<lparr>tree = Dir [(''src'', Dir [(''a'', File ''A''), (''b'', File ''B'')]),
                    (''dst'', Dir [(''b'', File ''B'')])],
        faults = [[''src'', ''a''] \<mapsto> ''EACCES''],
        console = []\<rparr>)"
    using copyUnpackedFiles_recovery [of "[''src'']" ?w 1 "[''dst'']" "''b''" _ _ "[]"] quiet'
    by simp
  have items: "readdirSync [''src''] ?v = Inr [''a'', ''b'']"
    by (simp add: readdirSync_def copy_world_def)
  have present: "existsSync [''src''] ?v"
    by (simp add: existsSync_def copy_world_def)
  have 6: "copyUnpackedFiles 2 [''src''] [''dst''] ?v =
      Some (Some (io_error ''EIO'' [''src'', ''a'']), ?v)"
    using 4 items present by (simp add: numeral_2_eq_2)
  have 7: "readdirSync [''src''] ?v = Inl (io_error ''EIO'' [''src'', ''a''])
      \<or> code (io_error ''EIO'' [''src'', ''a'']) \<notin> {Some ''ENOENT'', Some ''EPERM'', Some ''EACCES''}"
    using copyUnpackedFiles_recovery [of "[''src'']" ?v 2 "[''dst'']" _
        "io_error ''EIO'' [''src'', ''a'']" ?v] 6
    by blast
  show ?thesis
    using 1 2 3 4 5 6 7 by simp
qed

section \<open>Manual extraction, entry by entry\<close>

lemma existsSync_iff: "existsSync p w = (faults w p = None \<and> entry_at (tree w) p \<noteq> None)"
  by (simp add: existsSync_def entry_at_def)

lemma statSync_entry:
  "statSync p w =
     (case faults w p of
        Some c \<Rightarrow> Inl (io_error c p)
      | None \<Rightarrow>
          (case entry_at (tree w) p of
             None \<Rightarrow> Inl (io_error ''ENOENT'' p)
           | Some (KFile c) \<Rightarrow> Inr RegularFile
           | Some KDir \<Rightarrow> Inr Directory))"
  by (simp add: statSync_def entry_at_def kind_of_def split: option.splits fsnode.splits)

lemma regularFileAt_iff:
  "regularFileAt p w = (faults w p = None \<and> (\<exists>c. entry_at (tree w) p = Some (KFile c)))"
  by (auto simp: regularFileAt_def existsSync_iff statSync_entry isFile_def
      split: option.splits kind.splits)

lemma directoryAt_iff:
  "directoryAt p w = (faults w p = None \<and> entry_at (tree w) p = Some KDir)"
  by (auto simp: directoryAt_def existsSync_iff statSync_entry isDirectory_def
      split: option.splits kind.splits)

lemma remove_clear:
  "\<forall>q. prefix p q \<longrightarrow> fl q = None \<Longrightarrow> remove_node fl p nd = None"
  "\<forall>q. prefix p q \<longrightarrow> fl q = None \<Longrightarrow> remove_entries fl p es = None"
proof (induction fl p nd and fl p es rule: remove_node_remove_entries.induct)
  case (4 fl p e es)
  have "\<forall>q. prefix (p @ [fst e]) q \<longrightarrow> fl q = None"
    using "4.prems" by (auto simp: prefix_def)
  with 4 show ?case by simp
qed auto

lemma removeSync_frame:
  "removeSync p w = (r, w') \<Longrightarrow> console w' = console w \<and> faults w' = faults w"
  by (auto simp: removeSync_def split: option.splits if_splits)

lemma removeSync_dir:
  assumes "directoryAt d w" and "removeSync d w = (None, w')"
  shows "d \<noteq> [] \<and> w' = w\<lparr>tree := del (tree w) d\<rparr>"
  using assms
  by (auto simp: removeSync_def directoryAt_iff entry_at_def split: option.splits if_splits)

lemma removeSync_clear:
  assumes "d \<noteq> []" and "\<forall>q. prefix d q \<longrightarrow> faults w q = None"
  shows "\<exists>w'. removeSync d w = (None, w')"
  using assms remove_clear(1) [of d "faults w"]
  by (auto simp: removeSync_def split: option.splits)

lemma extractEntry_file:
  assumes "\<not> isDir (getAsarEntryInfo header (normalizeFilename filename))"
  shows "extractEntry lib asarFile destDir header filename w =
    (let nf = normalizeFilename filename; d = path_join destDir nf;
         entry = getAsarEntryInfo header nf in
     if regularFileAt d w then (None, w)
     else if directoryAt d w then
       (case removeSync d w of
          (Some e, w') \<Rightarrow> (Some e, w')
        | (None, w') \<Rightarrow> extractMissing lib asarFile nf d entry w')
     else extractMissing lib asarFile nf d entry w)"
  using assms
  by (auto simp: extractEntry_def Let_def existsSync_iff statSync_entry isFile_def isDirectory_def
      regularFileAt_iff directoryAt_iff split: option.splits kind.splits)

text \<open>
  Claim C4, amended. Take an entry that the header declares as a file (not a directory)
  and flags as externally stored, and suppose that the destination path holds no regular
  file. If a directory stands at the destination and cannot be removed, the error of
  the removal is thrown and the loop ends with it. Otherwise the iteration throws
  nothing, prints the warning that names the entry, writes nothing (the only change to
  the tree is that a directory standing at the destination is removed), leaves the
  destination without a regular file, and the loop goes on with the remaining file
  names.
\<close>

theorem missing_external_file_skipped:
  assumes "\<not> isDir (getAsarEntryInfo header (normalizeFilename filename))"
    and "isUnpacked (getAsarEntryInfo header (normalizeFilename filename))"
    and "\<not> regularFileAt (path_join destDir (normalizeFilename filename)) w"
  shows "(\<exists>err w1. directoryAt (path_join destDir (normalizeFilename filename)) w
        \<and> removeSync (path_join destDir (normalizeFilename filename)) w = (Some err, w1)
        \<and> extractEntry lib asarFile destDir header filename w = (Some err, w1)
        \<and> extractEntries lib asarFile destDir header (filename # rest) w = (Some err, w1))
    \<or> (\<exists>w'. extractEntry lib asarFile destDir header filename w = (None, w')
        \<and> (directoryAt (path_join destDir (normalizeFilename filename)) w \<longrightarrow>
             fst (removeSync (path_join destDir (normalizeFilename filename)) w) = None)
        \<and> console w' = console w @
            [''Warning: Skipping missing unpacked file: '' @ normalizeFilename filename]
        \<and> faults w' = faults w
        \<and> (\<forall>q. entry_at (tree w') q =
              (if directoryAt (path_join destDir (normalizeFilename filename)) w
                  \<and> prefix (path_join destDir (normalizeFilename filename)) q
               then None else entry_at (tree w) q))
        \<and> \<not> regularFileAt (path_join destDir (normalizeFilename filename)) w'
        \<and> extractEntries lib asarFile destDir header (filename # rest) w =
            extractEntries lib asarFile destDir header rest w')"
proof -
  let ?d = "path_join destDir (normalizeFilename filename)"
  let ?msg = "''Warning: Skipping missing unpacked file: '' @ normalizeFilename filename"
  show ?thesis
  proof (cases "directoryAt ?d w")
    case True
    obtain r w1 where rm: "removeSync ?d w = (r, w1)"
      by (cases "removeSync ?d w")
    show ?thesis
    proof (cases r)
      case (Some err)
      with rm True assms have "extractEntry lib asarFile destDir header filename w = (Some err, w1)"
        by (simp add: extractEntry_file Let_def)
      with rm True Some show ?thesis by auto
    next
      case None
      with removeSync_dir [OF True] rm have d: "?d \<noteq> []" and w1: "w1 = w\<lparr>tree := del (tree w) ?d\<rparr>"
        by simp_all
      let ?w' = "warn ?msg w1"
      have "extractEntry lib asarFile destDir header filename w = (None, ?w')"
        using assms True rm None by (simp add: extractEntry_file Let_def extractMissing_def)
      moreover have "\<forall>q. entry_at (tree ?w') q = (if prefix ?d q then None else entry_at (tree w) q)"
        using d w1 by (simp add: warn_def entry_at_del)
      moreover have "\<not> regularFileAt ?d ?w'"
        using d w1 by (simp add: regularFileAt_iff warn_def entry_at_del)
      ultimately show ?thesis
        using True w1 rm None by (intro disjI2 exI [of _ ?w']) (simp add: warn_def)
    qed
  next
    case False
    let ?w' = "warn ?msg w"
    have "extractEntry lib asarFile destDir header filename w = (None, ?w')"
      using assms False by (simp add: extractEntry_file Let_def extractMissing_def)
    moreover have "\<not> regularFileAt ?d ?w'"
      using assms(3) by (simp add: regularFileAt_iff warn_def)
    ultimately show ?thesis
      using False by (intro disjI2 exI [of _ ?w']) (simp add: warn_def)
  qed
qed

theorem missing_external_file_skipped_witness:
  "(\<exists>w'. extractEntry example_lib example_asar example_dest example_header ''/app/addon.node''
           stale_world = (None, w')
     \<and> console w' = [''Warning: Skipping missing unpacked file: app/addon.node'']
     \<and> entry_at (tree w') [''opt'', ''app'', ''app'', ''addon.node''] = None
     \<and> entry_at (tree w') [''opt'', ''app'', ''app'', ''main.js'', ''old''] = Some (KFile ''x'')
     \<and> extractEntries example_lib example_asar example_dest example_header
           [''/app/addon.node'', ''/app''] stale_world =
         extractEntries example_lib example_asar example_dest example_header [''/app''] w')
   \<and> extractEntries example_lib example_asar example_dest example_header
        [''/app/addon.node'', ''/app''] locked_world =
       (Some (io_error ''EACCES'' [''opt'', ''app'', ''app'', ''addon.node'', ''build'']),
        locked_world)"
proof -
  have nf: "normalizeFilename ''/app/addon.node'' = ''app/addon.node''"
    by (simp add: normalizeFilename_def is_sep_def)
  have d: "path_join example_dest ''app/addon.node'' = [''opt'', ''app'', ''app'', ''addon.node'']"
    by (simp add: path_join_def example_dest_def)
  have info: "getAsarEntryInfo example_header ''app/addon.node'' =
      \<lparr>isDir = False, isUnpacked = True, exists = True\<rparr>"
    by (simp add: getAsarEntryInfo_def getProperty_def path_parts_def is_sep_def example_header_def)
  have nofile: "\<not> regularFileAt [''opt'', ''app'', ''app'', ''addon.node''] stale_world"
    "\<not> regularFileAt [''opt'', ''app'', ''app'', ''addon.node''] locked_world"
    by (simp_all add: regularFileAt_def existsSync_def statSync_def stale_world_def
        locked_world_def isFile_def)
  have isdir: "directoryAt [''opt'', ''app'', ''app'', ''addon.node''] stale_world"
    "directoryAt [''opt'', ''app'', ''app'', ''addon.node''] locked_world"
    by (simp_all add: directoryAt_def existsSync_def statSync_def stale_world_def
        locked_world_def isDirectory_def)
  have removed: "removeSync [''opt'', ''app'', ''app'', ''addon.node''] stale_world =
      (None, stale_world\<lparr>tree := del (tree stale_world) [''opt'', ''app'', ''app'', ''addon.node'']\<rparr>)"
    by (simp add: removeSync_def stale_world_def)
  have kept: "removeSync [''opt'', ''app'', ''app'', ''addon.node''] locked_world =
      (Some (io_error ''EACCES'' [''opt'', ''app'', ''app'', ''addon.node'', ''build'']),
       locked_world)"
    by (simp add: removeSync_def locked_world_def)
  have old: "entry_at (tree stale_world) [''opt'', ''app'', ''app'', ''main.js'', ''old''] =
      Some (KFile ''x'')"
    by (simp add: entry_at_def stale_world_def)
  have empty: "console stale_world = []" "console locked_world = []"
    by (simp_all add: stale_world_def locked_world_def)
  note A = missing_external_file_skipped [of example_header "''/app/addon.node''" example_dest
      stale_world example_lib example_asar "[''/app'']", unfolded nf d]
  note B = missing_external_file_skipped [of example_header "''/app/addon.node''" example_dest
      locked_world example_lib example_asar "[''/app'']", unfolded nf d]
  have 1: "\<exists>w'. extractEntry example_lib example_asar example_dest example_header ''/app/addon.node''
           stale_world = (None, w')
     \<and> console w' = [''Warning: Skipping missing unpacked file: app/addon.node'']
     \<and> entry_at (tree w') [''opt'', ''app'', ''app'', ''addon.node''] = None
     \<and> entry_at (tree w') [''opt'', ''app'', ''app'', ''main.js'', ''old''] = Some (KFile ''x'')
     \<and> extractEntries example_lib example_asar example_dest example_header
           [''/app/addon.node'', ''/app''] stale_world =
         extractEntries example_lib example_asar example_dest example_header [''/app''] w'"
    using A info nofile(1) isdir(1) old empty(1) removed by auto
  have 2: "extractEntries example_lib example_asar example_dest example_header
        [''/app/addon.node'', ''/app''] locked_world =
       (Some (io_error ''EACCES'' [''opt'', ''app'', ''app'', ''addon.node'', ''build'']),
        locked_world)"
    using B info nofile(2) isdir(2) kept empty(2) by auto
  from 1 2 show ?thesis by blast
qed

text \<open>
  The claim as stated fails in two ways. For a directory entry: \<^verbatim>\<open>app\<close> is flagged
  externally stored in the header (as directories packed with \<^verbatim>\<open>--unpack-dir\<close> are) and
  no regular file stands at its destination, yet the iteration creates the directory
  and prints no warning. And for a file entry at whose destination a directory stands
  that cannot be removed: \<^verbatim>\<open>fs.removeSync\<close> is called outside the \<^verbatim>\<open>try\<close> block, so its
  error ends the extraction.
\<close>

theorem missing_external_file_skipped_counterexample:
  "isUnpacked (getAsarEntryInfo example_header (normalizeFilename ''/app''))
   \<and> \<not> regularFileAt (path_join example_dest (normalizeFilename ''/app'')) example_world
   \<and> extractEntry example_lib example_asar example_dest example_header ''/app'' example_world =
       (None,
        \<lparr>tree = Dir [(''opt'', Dir [(''app.asar'', File ''asar''),
                  (''app'', Dir [(''app'', Dir [])])])],
         faults = Map.empty,
         console = []\<rparr>)
   \<and> isUnpacked (getAsarEntryInfo example_header (normalizeFilename ''/app/addon.node''))
   \<and> \<not> regularFileAt (path_join example_dest (normalizeFilename ''/app/addon.node'')) locked_world
   \<and> extractEntries example_lib example_asar example_dest example_header
        [''/app/addon.node'', ''/app''] locked_world =
       (Some (io_error ''EACCES'' [''opt'', ''app'', ''app'', ''addon.node'', ''build'']),
        locked_world)"
  by (simp add: eval_defs regularFileAt_def locked_world_def)

lemma entry_at_parent:
  assumes "entry_at t d \<noteq> None" and "d \<noteq> []"
  shows "entry_at t (butlast d) = Some KDir"
  using entry_at_ancestor [of t "butlast d" "[last d]"] assms by simp

lemma prefix_of_parent_is_dir:
  assumes "entry_at t d \<noteq> None" and "prefix q (butlast d)" and "d \<noteq> []"
  shows "entry_at t q = Some KDir"
proof -
  from assms(2) obtain r where r: "butlast d = q @ r" by (auto simp: prefix_def)
  have "d = butlast d @ [last d]" using assms(3) by simp
  with r have "d = q @ (r @ [last d])" by simp
  with entry_at_ancestor [of t q "r @ [last d]"] assms(1) show ?thesis by simp
qed

lemma not_prefix_butlast: "d \<noteq> [] \<Longrightarrow> \<not> prefix d (butlast d)"
proof
  assume "d \<noteq> []" and "prefix d (butlast d)"
  then have "length d \<le> length (butlast d)" using prefix_length_le [of d "butlast d"] by blast
  moreover have "length (butlast d) = length d - 1" by (rule length_butlast)
  moreover have "0 < length d" using \<open>d \<noteq> []\<close> by simp
  ultimately show False by arith
qed

lemma write_after_remove:
  assumes dir: "directoryAt d w" and d: "d \<noteq> []" and par: "faults w (dirname d) = None"
  shows "\<exists>w'. (case ensureDirSync (dirname d) (w\<lparr>tree := del (tree w) d\<rparr>) of
                 (Some e, w1) \<Rightarrow> (Some e, w1)
               | (None, w1) \<Rightarrow> writeFileSync d b w1) = (None, w')
           \<and> entry_at (tree w') d = Some (KFile b) \<and> console w' = console w
           \<and> faults w' = faults w"
proof -
  let ?t0 = "del (tree w) d"
  from dir have here: "entry_at (tree w) d = Some KDir" and nofault: "faults w d = None"
    by (simp_all add: directoryAt_iff)
  have anc: "entry_at ?t0 q \<noteq> Some (KFile c)" if "prefix q (butlast d)" for q c
  proof -
    have "\<not> prefix d q"
      using that d not_prefix_butlast [of d] prefix_order.order_trans [of d q "butlast d"] by blast
    then have "entry_at ?t0 q = entry_at (tree w) q"
      using d by (simp add: entry_at_del)
    with prefix_of_parent_is_dir [of "tree w" d q] here that d show ?thesis by simp
  qed
  then obtain t1 where t1: "mkdirp ?t0 (butlast d) = Inr t1"
    using mkdirp_ok [of ?t0 "butlast d"] by blast
  have at1: "entry_at t1 q = (if prefix q (butlast d) then Some KDir else entry_at ?t0 q)" for q
    using entry_at_mkdirp [OF t1] by simp
  have "entry_at t1 d = None"
    using d not_prefix_butlast [of d] by (simp add: at1 entry_at_del)
  moreover have "entry_at t1 (butlast d) = Some KDir"
    by (simp add: at1)
  ultimately obtain t2 where t2: "put t1 d b = Inr t2"
    using put_ok [of t1 d b] d by auto
  have "entry_at t2 d = Some (KFile b)"
    using entry_at_put [OF t2, of d] by simp
  with t1 t2 par nofault show ?thesis
    by (simp add: ensureDirSync_def writeFileSync_def dirname_def)
qed

text \<open>
  Claim C8, amended. Take an entry that the header declares as a file. If a regular file
  stands at its destination, the iteration changes nothing: no write, no warning. If a
  directory stands there, its removal is attempted. When the removal fails, its error
  is thrown and the entry is not processed further. When it succeeds, the directory is
  gone with everything below it and the rest of the iteration runs on the tree without
  it; if moreover the entry is not externally stored, the codec returns its bytes and
  the parent directory can be accessed, the bytes are then written to the destination
  and no warning is printed.
\<close>

theorem existing_destination_resolved:
  assumes "\<not> isDir (getAsarEntryInfo header (normalizeFilename filename))"
  shows "(regularFileAt (path_join destDir (normalizeFilename filename)) w \<longrightarrow>
            extractEntry lib asarFile destDir header filename w = (None, w))
    \<and> (directoryAt (path_join destDir (normalizeFilename filename)) w \<longrightarrow>
        (\<forall>err w1. removeSync (path_join destDir (normalizeFilename filename)) w = (Some err, w1) \<longrightarrow>
           extractEntry lib asarFile destDir header filename w = (Some err, w1)))
    \<and> (directoryAt (path_join destDir (normalizeFilename filename)) w \<longrightarrow>
        (\<forall>w1. removeSync (path_join destDir (normalizeFilename filename)) w = (None, w1) \<longrightarrow>
           extractEntry lib asarFile destDir header filename w =
             extractMissing lib asarFile (normalizeFilename filename)
               (path_join destDir (normalizeFilename filename))
               (getAsarEntryInfo header (normalizeFilename filename)) w1
           \<and> console w1 = console w \<and> faults w1 = faults w
           \<and> (\<forall>q. entry_at (tree w1) q =
                 (if prefix (path_join destDir (normalizeFilename filename)) q then None
                  else entry_at (tree w) q))))
    \<and> (directoryAt (path_join destDir (normalizeFilename filename)) w \<longrightarrow>
        fst (removeSync (path_join destDir (normalizeFilename filename)) w) = None \<longrightarrow>
        \<not> isUnpacked (getAsarEntryInfo header (normalizeFilename filename)) \<longrightarrow>
        extractFile lib asarFile (normalizeFilename filename) = Inr (Buffer bytes) \<longrightarrow>
        faults w (dirname (path_join destDir (normalizeFilename filename))) = None \<longrightarrow>
          (\<exists>w'. extractEntry lib asarFile destDir header filename w = (None, w')
             \<and> entry_at (tree w') (path_join destDir (normalizeFilename filename)) =
                 Some (KFile bytes)
             \<and> console w' = console w))"
proof -
  let ?nf = "normalizeFilename filename"
  let ?d = "path_join destDir ?nf"
  have reg_not_dir: "\<not> regularFileAt ?d w" if "directoryAt ?d w"
    using that by (auto simp: regularFileAt_iff directoryAt_iff)
  have 1: "regularFileAt ?d w \<longrightarrow> extractEntry lib asarFile destDir header filename w = (None, w)"
    using assms by (simp add: extractEntry_file Let_def)
  have 2: "extractEntry lib asarFile destDir header filename w = (Some err, w1)"
    if "directoryAt ?d w" and "removeSync ?d w = (Some err, w1)" for err w1
    using assms that reg_not_dir by (simp add: extractEntry_file Let_def)
  have 3: "extractEntry lib asarFile destDir header filename w =
        extractMissing lib asarFile ?nf ?d (getAsarEntryInfo header ?nf) w1
      \<and> console w1 = console w \<and> faults w1 = faults w
      \<and> (\<forall>q. entry_at (tree w1) q = (if prefix ?d q then None else entry_at (tree w) q))"
    if dir: "directoryAt ?d w" and rm: "removeSync ?d w = (None, w1)" for w1
  proof -
    from removeSync_dir [OF dir rm] have "?d \<noteq> []" and "w1 = w\<lparr>tree := del (tree w) ?d\<rparr>"
      by simp_all
    then have "\<forall>q. entry_at (tree w1) q = (if prefix ?d q then None else entry_at (tree w) q)"
      by (simp add: entry_at_del)
    moreover have "extractEntry lib asarFile destDir header filename w =
        extractMissing lib asarFile ?nf ?d (getAsarEntryInfo header ?nf) w1"
      using assms dir rm reg_not_dir by (simp add: extractEntry_file Let_def)
    ultimately show ?thesis
      using removeSync_frame [OF rm] by simp
  qed
  have 4: "\<exists>w'. extractEntry lib asarFile destDir header filename w = (None, w')
             \<and> entry_at (tree w') ?d = Some (KFile bytes) \<and> console w' = console w"
    if dir: "directoryAt ?d w" and rm: "fst (removeSync ?d w) = None"
      and packed: "\<not> isUnpacked (getAsarEntryInfo header ?nf)"
      and bytes: "extractFile lib asarFile ?nf = Inr (Buffer bytes)"
      and par: "faults w (dirname ?d) = None"
  proof -
    from rm obtain w1 where w1: "removeSync ?d w = (None, w1)"
      by (cases "removeSync ?d w") simp
    from removeSync_dir [OF dir w1] have d: "?d \<noteq> []" and eq: "w1 = w\<lparr>tree := del (tree w) ?d\<rparr>"
      by simp_all
    from write_after_remove [OF dir d par, of bytes] obtain w' where
      w': "(case ensureDirSync (dirname ?d) (w\<lparr>tree := del (tree w) ?d\<rparr>) of
                 (Some e, w1) \<Rightarrow> (Some e, w1)
               | (None, w1) \<Rightarrow> writeFileSync ?d bytes w1) = (None, w')"
      and "entry_at (tree w') ?d = Some (KFile bytes)" "console w' = console w"
      by blast
    moreover have "extractEntry lib asarFile destDir header filename w = (None, w')"
      using 3 [OF dir w1] eq packed bytes w' by (simp add: extractMissing_def tryExtractFile_def)
    ultimately show ?thesis by blast
  qed
  from 1 2 3 4 show ?thesis by blast
qed

theorem existing_destination_resolved_witness:
  "extractEntry example_lib example_asar example_dest example_header ''/app/main.js''
      extracted_world = (None, extracted_world)
   \<and> extractEntry example_lib example_asar example_dest example_header ''/app/main.js''
      locked_world =
      (Some (io_error ''EACCES'' [''opt'', ''app'', ''app'', ''main.js'', ''old'']), locked_world)
   \<and> extractEntry example_lib example_asar example_dest example_header ''/app/addon.node''
      stale_world =
      extractMissing example_lib example_asar ''app/addon.node''
        [''opt'', ''app'', ''app'', ''addon.node'']
        \<lparr>isDir = False, isUnpacked = True, exists = True\<rparr>
        (stale_world\<lparr>tree := del (tree stale_world) [''opt'', ''app'', ''app'', ''addon.node'']\<rparr>)
   \<and> entry_at (del (tree stale_world) [''opt'', ''app'', ''app'', ''addon.node''])
        [''opt'', ''app'', ''app'', ''addon.node''] = None
   \<and> (\<exists>w'. extractEntry example_lib example_asar example_dest example_header ''/app/main.js''
            stale_world = (None, w')
          \<and> entry_at (tree w') [''opt'', ''app'', ''app'', ''main.js''] = Some (KFile ''main()'')
          \<and> console w' = [])"
proof -
  have nf: "normalizeFilename ''/app/main.js'' = ''app/main.js''"
    "normalizeFilename ''/app/addon.node'' = ''app/addon.node''"
    by (simp_all add: normalizeFilename_def is_sep_def)
  have d: "path_join example_dest ''app/main.js'' = [''opt'', ''app'', ''app'', ''main.js'']"
    "path_join example_dest ''app/addon.node'' = [''opt'', ''app'', ''app'', ''addon.node'']"
    by (simp_all add: path_join_def example_dest_def)
  have info: "getAsarEntryInfo example_header ''app/main.js'' =
      \<lparr>isDir = False, isUnpacked = False, exists = True\<rparr>"
    "getAsarEntryInfo example_header ''app/addon.node'' =
      \<lparr>isDir = False, isUnpacked = True, exists = True\<rparr>"
    by (simp_all add: getAsarEntryInfo_def getProperty_def path_parts_def is_sep_def
        example_header_def)
  have reg: "regularFileAt [''opt'', ''app'', ''app'', ''main.js''] extracted_world"
    by (simp add: regularFileAt_def existsSync_def statSync_def extracted_world_def isFile_def)
  have dir: "directoryAt [''opt'', ''app'', ''app'', ''main.js''] stale_world"
    "directoryAt [''opt'', ''app'', ''app'', ''addon.node''] stale_world"
    "directoryAt [''opt'', ''app'', ''app'', ''main.js''] locked_world"
    by (simp_all add: directoryAt_def existsSync_def statSync_def stale_world_def
        locked_world_def isDirectory_def)
  have removed: "removeSync [''opt'', ''app'', ''app'', ''main.js''] stale_world =
      (None, stale_world\<lparr>tree := del (tree stale_world) [''opt'', ''app'', ''app'', ''main.js'']\<rparr>)"
    "removeSync [''opt'', ''app'', ''app'', ''addon.node''] stale_world =
      (None, stale_world\<lparr>tree := del (tree stale_world) [''opt'', ''app'', ''app'', ''addon.node'']\<rparr>)"
    by (simp_all add: removeSync_def stale_world_def)
  have kept: "removeSync [''opt'', ''app'', ''app'', ''main.js''] locked_world =
      (Some (io_error ''EACCES'' [''opt'', ''app'', ''app'', ''main.js'', ''old'']), locked_world)"
    by (simp add: removeSync_def locked_world_def)
  have bytes: "extractFile example_lib example_asar ''app/main.js'' = Inr (Buffer ''main()'')"
    by (simp add: example_lib_def)
  have par: "faults stale_world (dirname [''opt'', ''app'', ''app'', ''main.js'']) = None"
    "console stale_world = []"
    by (simp_all add: stale_world_def)
  have file1: "\<not> isDir (getAsarEntryInfo example_header (normalizeFilename ''/app/main.js''))"
    and file2: "\<not> isDir (getAsarEntryInfo example_header (normalizeFilename ''/app/addon.node''))"
    by (simp_all add: nf info)
  have packed: "\<not> isUnpacked (getAsarEntryInfo example_header ''app/main.js'')"
    by (simp add: info)
  have ok: "fst (removeSync [''opt'', ''app'', ''app'', ''main.js''] stale_world) = None"
    by (simp add: removed(1))
  note A = existing_destination_resolved [OF file1, of example_dest extracted_world example_lib
      example_asar, unfolded nf d]
  note B = existing_destination_resolved [OF file2, of example_dest stale_world example_lib
      example_asar, unfolded nf d]
  note C = existing_destination_resolved [OF file1, of example_dest stale_world example_lib
      example_asar "''main()''", unfolded nf d]
  note D = existing_destination_resolved [OF file1, of example_dest locked_world example_lib
      example_asar, unfolded nf d]
  have 1: "extractEntry example_lib example_asar example_dest example_header ''/app/main.js''
      extracted_world = (None, extracted_world)"
    using A [THEN conjunct1, rule_format, OF reg] .
  have 2: "extractEntry example_lib example_asar example_dest example_header ''/app/main.js''
      locked_world =
      (Some (io_error ''EACCES'' [''opt'', ''app'', ''app'', ''main.js'', ''old'']), locked_world)"
    using D [THEN conjunct2, THEN conjunct1, rule_format, OF dir(3) kept] .
  have 3: "extractEntry example_lib example_asar example_dest example_header ''/app/addon.node''
      stale_world =
      extractMissing example_lib example_asar ''app/addon.node''
        [''opt'', ''app'', ''app'', ''addon.node'']
        \<lparr>isDir = False, isUnpacked = True, exists = True\<rparr>
        (stale_world\<lparr>tree := del (tree stale_world) [''opt'', ''app'', ''app'', ''addon.node'']\<rparr>)
      \<and> entry_at (del (tree stale_world) [''opt'', ''app'', ''app'', ''addon.node''])
        [''opt'', ''app'', ''app'', ''addon.node''] = None"
    using B [THEN conjunct2, THEN conjunct2, THEN conjunct1, rule_format, OF dir(2) removed(2)]
    by (simp add: info)
  have 4: "\<exists>w'. extractEntry example_lib example_asar example_dest example_header ''/app/main.js''
            stale_world = (None, w')
          \<and> entry_at (tree w') [''opt'', ''app'', ''app'', ''main.js''] = Some (KFile ''main()'')
          \<and> console w' = []"
    using C [THEN conjunct2, THEN conjunct2, THEN conjunct2, rule_format,
        OF dir(1) ok packed bytes par(1)]
    unfolding par(2) .
  from 1 2 3 4 show ?thesis by blast
qed

text \<open>
  The claim as stated promises that a stale directory is removed and that the bytes of
  a non-external entry are then written. When the directory cannot be removed, the
  error of \<^verbatim>\<open>fs.removeSync\<close> is thrown, the directory stays and nothing is written. And
  when the codec throws for the entry, the directory is removed, a warning is printed
  and nothing is written.
\<close>

theorem existing_destination_resolved_counterexample:
  "\<not> isDir (getAsarEntryInfo example_header (normalizeFilename ''/app/main.js''))
   \<and> \<not> isUnpacked (getAsarEntryInfo example_header (normalizeFilename ''/app/main.js''))
   \<and> directoryAt (path_join example_dest (normalizeFilename ''/app/main.js'')) locked_world
   \<and> extractEntry example_lib example_asar example_dest example_header ''/app/main.js''
         locked_world =
       (Some (io_error ''EACCES'' [''opt'', ''app'', ''app'', ''main.js'', ''old'']), locked_world)
   \<and> directoryAt (path_join example_dest (normalizeFilename ''/app/main.js'')) stale_world
   \<and> extractEntry throwing_lib example_asar example_dest example_header ''/app/main.js''
         stale_world =
       (None,
        \<lparr>tree = Dir [(''opt'', Dir [(''app'', Dir [(''app'', Dir [(''addon.node'', Dir [])])])])],
         faults = Map.empty,
         console = [''Warning: Failed to extract app/main.js: corrupt entry'']\<rparr>)"
  by (simp add: eval_defs directoryAt_def stale_world_def locked_world_def throwing_lib_def)


lemma writeFileSync_result:
  "writeFileSync p c w = (r, w') \<Longrightarrow>
     console w' = console w \<and> faults w' = faults w \<and>
     (case r of None \<Rightarrow> entry_at (tree w') p = Some (KFile c) | Some e \<Rightarrow> w' = w)"
  by (auto simp: writeFileSync_def entry_at_put split: option.splits sum.splits)






section \<open>Properties of the patcher\<close>

lemma AlreadyPatched_neq: "AlreadyPatched \<noteq> PatternNotFound"
  by (simp add: AlreadyPatched_def PatternNotFound_def Error_def)

text \<open>
  Claim C3. Let the bundle hold the text \<open>sourceData\<close>. If the substitution leaves the
  text as it is, \<^verbatim>\<open>patchDirWithPro\<close> throws and writes nothing: the error is
  \<open>AlreadyPatched\<close> when the marker \<^const>\<open>patchedPattern\<close> occurs in the text, and
  \<open>PatternNotFound\<close> when it does not; the two errors differ. If the substitution changes
  the text, the outcome is that of writing the substituted text to the bundle.
\<close>

theorem patchDirWithPro_outcome:
  assumes "readFileSync (path_join (dir this) ''src/main/static/main.bundle.js'') w = Inr sourceData"
  shows "(replace sourceData = sourceData \<longrightarrow>
            patchDirWithPro replace this w =
              (Some (if sublist patchedPattern sourceData then AlreadyPatched else PatternNotFound), w))
    \<and> (replace sourceData \<noteq> sourceData \<longrightarrow>
            patchDirWithPro replace this w =
              writeFileSync (path_join (dir this) ''src/main/static/main.bundle.js'')
                (replace sourceData) w)
    \<and> AlreadyPatched \<noteq> PatternNotFound"
  using assms indexOf_neg [of sourceData patchedPattern] AlreadyPatched_neq
  by (auto simp: patchDirWithPro_def Let_def)

theorem patchDirWithPro_outcome_witness:
  "patchDirWithPro example_replace example_patcher (bundle_world (''x'' @ patchedPattern)) =
     (Some AlreadyPatched, bundle_world (''x'' @ patchedPattern))
   \<and> patchDirWithPro example_replace example_patcher (bundle_world ''return 1};'') =
     (Some PatternNotFound, bundle_world ''return 1};'')
   \<and> patchDirWithPro example_replace example_patcher (bundle_world ''return secure};'') =
     (None, bundle_world (''var json=secure;'' @ patchedPattern))"
proof -
  let ?target = "path_join (dir example_patcher) ''src/main/static/main.bundle.js''"
  have bpath: "?target = [''app'', ''src'', ''main'', ''static'', ''main.bundle.js'']"
    by (simp add: path_join_def example_patcher_def)
  have holds: "readFileSync ?target (bundle_world body) = Inr body" for body
    unfolding bpath by (simp add: readFileSync_def bundle_world_def)
  have same1: "example_replace (''x'' @ patchedPattern) = ''x'' @ patchedPattern"
    by (simp add: example_replace_def patchedPattern_def)
  have same2: "example_replace ''return 1};'' = ''return 1};''"
    by (simp add: example_replace_def)
  have changed: "example_replace ''return secure};'' \<noteq> ''return secure};''"
    "example_replace ''return secure};'' = ''var json=secure;'' @ patchedPattern"
    by (simp_all add: example_replace_def patchedPattern_def)
  have marker: "sublist patchedPattern (''x'' @ patchedPattern)"
    unfolding sublist_def by (rule exI [of _ "''x''"], rule exI [of _ "[]"]) simp
  have nomarker: "\<not> sublist patchedPattern ''return 1};''"
    unfolding indexOf_neg [symmetric] by (simp add: indexOf_def patchedPattern_def)
  have written: "writeFileSync ?target (''var json=secure;'' @ patchedPattern)
      (bundle_world ''return secure};'') = (None, bundle_world (''var json=secure;'' @ patchedPattern))"
    unfolding bpath by (simp add: writeFileSync_def bundle_world_def)
  have 1: "patchDirWithPro example_replace example_patcher (bundle_world (''x'' @ patchedPattern)) =
     (Some AlreadyPatched, bundle_world (''x'' @ patchedPattern))"
    using patchDirWithPro_outcome [OF holds [of "''x'' @ patchedPattern"], of example_replace,
        THEN conjunct1, rule_format, OF same1] marker
    by simp
  have 2: "patchDirWithPro example_replace example_patcher (bundle_world ''return 1};'') =
     (Some PatternNotFound, bundle_world ''return 1};'')"
    using patchDirWithPro_outcome [OF holds [of "''return 1};''"], of example_replace,
        THEN conjunct1, rule_format, OF same2] nomarker
    by simp
  have 3: "patchDirWithPro example_replace example_patcher (bundle_world ''return secure};'') =
     (None, bundle_world (''var json=secure;'' @ patchedPattern))"
    using patchDirWithPro_outcome [OF holds [of "''return secure};''"], of example_replace,
        THEN conjunct2, THEN conjunct1, rule_format, OF changed(1)] written
    unfolding changed(2) by simp
  from 1 2 3 show ?thesis by blast
qed


text \<open>
  Claim C2. Let the old file hold the text \<open>sourceData\<close> and let \<^verbatim>\<open>diff.applyPatch\<close>
  report that the unit does not apply to it. Then \<^verbatim>\<open>patchDirWithPatch\<close> throws an error
  whose message names the old file, and the world is the one before the call: neither
  the old nor the new file has been written or removed.
\<close>

theorem patchDirWithPatch_rejected:
  assumes "readFileSync (path_join (dir this) (oldFileName patch)) w = Inr sourceData"
    and "applyPatch sourceData patch = None"
  shows "patchDirWithPatch applyPatch this patch w =
           (Some (Error (''Can't patch '' @ oldFileName patch)), w)
    \<and> sublist (oldFileName patch) (message (Error (''Can't patch '' @ oldFileName patch)))"
proof -
  have "sublist (oldFileName patch) (''Can't patch '' @ oldFileName patch)"
    unfolding sublist_def
    by (rule exI [of _ "''Can't patch ''"], rule exI [of _ "[]"]) simp
  with assms show ?thesis
    by (simp add: patchDirWithPatch_def Error_def)
qed

theorem patchDirWithPatch_rejected_witness:
  "patchDirWithPatch (\<lambda>text patch. None) example_patcher example_diff (bundle_world ''some line'') =
     (Some (Error ''Can't patch src/main/static/main.bundle.js''), bundle_world ''some line'')"
proof -
  have old: "path_join (dir example_patcher) (oldFileName example_diff) =
      [''app'', ''src'', ''main'', ''static'', ''main.bundle.js'']"
    by (simp add: path_join_def example_patcher_def example_diff_def)
  have holds: "readFileSync (path_join (dir example_patcher) (oldFileName example_diff))
      (bundle_world ''some line'') = Inr ''some line''"
    unfolding old by (simp add: readFileSync_def bundle_world_def)
  have rejected: "(\<lambda>text patch. None :: string option) ''some line'' example_diff = None"
    by simp
  from patchDirWithPatch_rejected [OF holds rejected]
  show ?thesis by (simp add: example_diff_def)
qed


text \<open>
  Claim C10. The constructor throws when no archive is resolved: with the message
  \<^verbatim>\<open>Can't find app.asar!\<close> when neither the options nor the discovery name one, and with
  the error of the discovery when that throws. It throws when the list of features is
  empty. In every other case it returns an object whose getters give the resolved
  archive, the directory (the option, or else the one derived from the archive), and
  the features as given.
\<close>

theorem new_Patcher_outcome:
  "(maybeAsar ev opts w = Inr None \<longrightarrow>
      new_Patcher ev opts w = Inl (Error ''Can't find app.asar!''))
   \<and> (\<forall>e. maybeAsar ev opts w = Inl e \<longrightarrow> new_Patcher ev opts w = Inl e)
   \<and> (opt_features opts = [] \<longrightarrow> (\<exists>e. new_Patcher ev opts w = Inl e))
   \<and> (\<forall>a. maybeAsar ev opts w = Inr (Some a) \<longrightarrow> opt_features opts = [] \<longrightarrow>
         new_Patcher ev opts w = Inl (Error ''Features is empty!''))
   \<and> (\<forall>a. maybeAsar ev opts w = Inr (Some a) \<longrightarrow> opt_features opts \<noteq> [] \<longrightarrow>
         (\<exists>this. new_Patcher ev opts w = Inr this
            \<and> asar this = a
            \<and> dir this = (case opt_dir opts of Some d \<Rightarrow> d | None \<Rightarrow> findDir a)
            \<and> features this = opt_features opts))
   \<and> (opt_asar opts = None \<longrightarrow> maybeAsar ev opts w = findAsar ev (opt_dir opts) w)
   \<and> (\<forall>a. opt_asar opts = Some a \<longrightarrow> maybeAsar ev opts w = Inr (Some a))"
  by (cases "maybeAsar ev opts w")
    (auto simp: new_Patcher_def Let_def maybeAsar_def split: option.splits)

theorem new_Patcher_outcome_witness:
  "new_Patcher linux_env \<lparr>opt_asar = None, opt_dir = None, opt_features = [''pro'']\<rparr>
      example_world = Inl (Error ''Can't find app.asar!'')
   \<and> new_Patcher linux_env \<lparr>opt_asar = None, opt_dir = Some [''app''], opt_features = []\<rparr>
      example_world = Inl (Error ''Features is empty!'')
   \<and> new_Patcher linux_env \<lparr>opt_asar = None, opt_dir = None, opt_features = [''pro'']\<rparr>
      installed_world =
      Inr \<lparr>asar = [''opt'', ''gitkraken'', ''resources'', ''app.asar''],
           dir = [''opt'', ''gitkraken'', ''resources'', ''app''],
           features = [''pro'']\<rparr>
   \<and> new_Patcher linux_env
        \<lparr>opt_asar = Some [''x'', ''a.asar''], opt_dir = Some [''y''], opt_features = [''pro'', ''dev'']\<rparr>
      example_world =
      Inr \<lparr>asar = [''x'', ''a.asar''], dir = [''y''], features = [''pro'', ''dev'']\<rparr>
   \<and> new_Patcher windows_env \<lparr>opt_asar = None, opt_dir = None, opt_features = [''pro'']\<rparr>
      windows_world =
      Inl (io_error ''ENOTDIR'' [''home'', ''u'', ''AppData'', ''Local'', ''gitkraken''])"
proof -
  let ?none = "\<lparr>opt_asar = None, opt_dir = None, opt_features = [''pro'']\<rparr>"
  let ?nofeat = "\<lparr>opt_asar = None, opt_dir = Some [''app''], opt_features = []\<rparr>"
  let ?given = "\<lparr>opt_asar = Some [''x'', ''a.asar''], opt_dir = Some [''y''],
      opt_features = [''pro'', ''dev'']\<rparr>"
  have m1: "maybeAsar linux_env ?none example_world = Inr None"
    by (simp add: maybeAsar_def findAsar_def linux_env_def findAsarLinux_def findAsarUnix_def
        existsSync_def example_world_def)
  have m2: "maybeAsar linux_env ?nofeat example_world = Inr (Some [''app.asar''])"
    by (simp add: maybeAsar_def findAsar_def path_suffix_def)
  have m3: "maybeAsar linux_env ?none installed_world =
      Inr (Some [''opt'', ''gitkraken'', ''resources'', ''app.asar''])"
    by (simp add: maybeAsar_def findAsar_def linux_env_def findAsarLinux_def findAsarUnix_def
        existsSync_def installed_world_def)
  have m4: "maybeAsar linux_env ?given example_world = Inr (Some [''x'', ''a.asar''])"
    by (simp add: maybeAsar_def)
  have d3: "findDir [''opt'', ''gitkraken'', ''resources'', ''app.asar''] =
      [''opt'', ''gitkraken'', ''resources'', ''app'']"
    by (simp add: findDir_def dirname_def strip_ext_def path_join_def)
  have 1: "new_Patcher linux_env ?none example_world = Inl (Error ''Can't find app.asar!'')"
    using new_Patcher_outcome [of linux_env ?none example_world, THEN conjunct1, rule_format, OF m1] .
  have 2: "new_Patcher linux_env ?nofeat example_world = Inl (Error ''Features is empty!'')"
    using new_Patcher_outcome [of linux_env ?nofeat example_world, THEN conjunct2, THEN conjunct2,
        THEN conjunct2, THEN conjunct1, rule_format, OF m2]
    by simp
  have 3: "\<exists>this. new_Patcher linux_env ?none installed_world = Inr this
      \<and> asar this = [''opt'', ''gitkraken'', ''resources'', ''app.asar'']
      \<and> dir this = (case opt_dir ?none of Some d \<Rightarrow> d
                     | None \<Rightarrow> findDir [''opt'', ''gitkraken'', ''resources'', ''app.asar''])
      \<and> features this = opt_features ?none"
    using new_Patcher_outcome [of linux_env ?none installed_world, THEN conjunct2, THEN conjunct2,
        THEN conjunct2, THEN conjunct2, THEN conjunct1, rule_format, OF m3]
    by simp
  have 4: "\<exists>this. new_Patcher linux_env ?given example_world = Inr this
      \<and> asar this = [''x'', ''a.asar'']
      \<and> dir this = (case opt_dir ?given of Some d \<Rightarrow> d | None \<Rightarrow> findDir [''x'', ''a.asar''])
      \<and> features this = opt_features ?given"
    using new_Patcher_outcome [of linux_env ?given example_world, THEN conjunct2, THEN conjunct2,
        THEN conjunct2, THEN conjunct2, THEN conjunct1, rule_format, OF m4]
    by simp
  from 3 d3 have r3: "new_Patcher linux_env ?none installed_world =
      Inr \<lparr>asar = [''opt'', ''gitkraken'', ''resources'', ''app.asar''],
           dir = [''opt'', ''gitkraken'', ''resources'', ''app''],
           features = [''pro'']\<rparr>"
    by auto
  from 4 have r4: "new_Patcher linux_env ?given example_world =
      Inr \<lparr>asar = [''x'', ''a.asar''], dir = [''y''], features = [''pro'', ''dev'']\<rparr>"
    by auto
  have m5: "maybeAsar windows_env ?none windows_world =
      Inl (io_error ''ENOTDIR'' [''home'', ''u'', ''AppData'', ''Local'', ''gitkraken''])"
    by (simp add: maybeAsar_def findAsar_def windows_env_def findAsarWindows_def path_join_def
        existsSync_def readdirSync_def windows_world_def)
  have 5: "new_Patcher windows_env ?none windows_world =
      Inl (io_error ''ENOTDIR'' [''home'', ''u'', ''AppData'', ''Local'', ''gitkraken''])"
    using new_Patcher_outcome [of windows_env ?none windows_world, THEN conjunct2, THEN conjunct1,
        rule_format, OF m5] .
  from 1 2 r3 r4 5 show ?thesis by blast
qed

section \<open>Manual extraction a second time\<close>

lemma mkdirp_noop: "entry_at t p = Some KDir \<Longrightarrow> mkdirp t p = Inr t"
proof (induction p arbitrary: t)
  case Nil
  then show ?case by (cases t) auto
next
  case (Cons s p)
  then obtain es where t: "t = Dir es" by (cases t) auto
  with Cons.prems obtain child where c: "map_of es s = Some child" "entry_at child p = Some KDir"
    by (auto simp: entry_at_Dir_Cons split: option.splits)
  with Cons.IH [of child] t show ?case
    by (simp add: update_triv)
qed

lemma mkdirp_grows:
  assumes "mkdirp t p = Inr t'"
  shows "entry_at t' q = entry_at t q \<or>
         (prefix q p \<and> entry_at t q = None \<and> entry_at t' q = Some KDir)"
proof (cases "prefix q p")
  case True
  from assms have "\<exists>t'. mkdirp t p = Inr t'" by blast
  then have "\<forall>c. entry_at t q \<noteq> Some (KFile c)"
    using True by (simp add: mkdirp_ok)
  then have "entry_at t q = None \<or> entry_at t q = Some KDir"
    by (cases "entry_at t q") (auto intro: kind.exhaust)
  with True entry_at_mkdirp [OF assms, of q] show ?thesis by auto
next
  case False
  with entry_at_mkdirp [OF assms, of q] show ?thesis by simp
qed

subsection \<open>Entries of the header\<close>

lemma resolve_spec_parent:
  assumes "resolve_spec header (ps @ qs) = Some n" and "qs \<noteq> []"
  shows "\<exists>m. resolve_spec header ps = Some m \<and> files m \<noteq> None"
proof -
  from assms(2) obtain s qs' where qs: "qs = s # qs'" by (cases qs) auto
  from assms(1) obtain m where m: "resolve_spec header ps = Some m"
    and "resolve_spec m qs = Some n"
    by (auto simp: resolve_spec_append split: option.splits)
  with qs have "child_of m s \<noteq> None" by (auto split: option.splits)
  then have "files m \<noteq> None" by (auto simp: child_of_def split: option.splits)
  with m show ?thesis by blast
qed

lemma file_entry_has_no_descendant:
  assumes f: "wellListed destDir header f" and g: "wellListed destDir header g"
    and fentry: "\<not> isDir (getAsarEntryInfo header (normalizeFilename f))"
    and pre: "prefix (path_join destDir (normalizeFilename f)) (path_join destDir (normalizeFilename g))"
  shows "path_join destDir (normalizeFilename f) = path_join destDir (normalizeFilename g)
    \<and> getAsarEntryInfo header (normalizeFilename f) = getAsarEntryInfo header (normalizeFilename g)"
proof -
  let ?pf = "path_parts (normalizeFilename f)" and ?pg = "path_parts (normalizeFilename g)"
  from f g have df: "path_join destDir (normalizeFilename f) = destDir @ ?pf"
    and dg: "path_join destDir (normalizeFilename g) = destDir @ ?pg"
    by (simp_all add: wellListed_def)
  with pre have "prefix ?pf ?pg" by simp
  then obtain qs where qs: "?pg = ?pf @ qs" by (auto simp: prefix_def)
  from g obtain n where n: "resolve_spec header ?pg = Some n"
    by (auto simp: wellListed_def)
  have "qs = []"
  proof (rule ccontr)
    assume "qs \<noteq> []"
    with resolve_spec_parent [of header ?pf qs n] n qs
    have "isDir (getAsarEntryInfo header (normalizeFilename f))"
      by (simp add: isDir_resolve)
    with fentry show False by simp
  qed
  with qs df dg show ?thesis
    by (simp add: getAsarEntryInfo_def getProperty_def)
qed

subsection \<open>Changes of the tree that keep an entry settled\<close>

lemma settledT_mkdirp:
  assumes s: "settledT lib asarFile destDir header g t fl"
    and m: "mkdirp t p = Inr t'"
    and away: "\<not> isDir (getAsarEntryInfo header (normalizeFilename g)) \<Longrightarrow>
        \<not> prefix (path_join destDir (normalizeFilename g)) p
        \<or> entry_at t (path_join destDir (normalizeFilename g)) \<noteq> None"
  shows "settledT lib asarFile destDir header g t' fl"
proof -
  let ?nf = "normalizeFilename g"
  let ?d = "path_join destDir ?nf"
  let ?e = "getAsarEntryInfo header ?nf"
  note G = mkdirp_grows [OF m]
  show ?thesis
  proof (cases "isDir ?e")
    case True
    with s G [of ?d] show ?thesis by (auto simp: settledT_def Let_def)
  next
    case False
    have same: "entry_at t q = Some k \<Longrightarrow> entry_at t' q = Some k" for q k
      using G [of q] by auto
    have here: "entry_at t ?d = None \<Longrightarrow> entry_at t' ?d = None"
      using G [of ?d] away [OF False] by auto
    have cw: "cannotWrite lib asarFile ?nf ?d t' fl" if "cannotWrite lib asarFile ?nf ?d t fl"
      using that same by (auto simp: cannotWrite_def split: sum.splits jsval.splits)
    from s False show ?thesis
      unfolding settledT_def Let_def using same here cw by auto
  qed
qed

lemma settledT_del:
  assumes s: "settledT lib asarFile destDir header g t fl"
    and p: "p \<noteq> []"
    and away: "\<not> prefix p (path_join destDir (normalizeFilename g))"
  shows "settledT lib asarFile destDir header g (del t p) fl"
proof -
  let ?nf = "normalizeFilename g"
  let ?d = "path_join destDir ?nf"
  have same: "entry_at (del t p) q = entry_at t q" if "prefix q ?d" for q
  proof -
    have "\<not> prefix p q"
      using that away prefix_order.order_trans [of p q ?d] by blast
    then show ?thesis using p by (simp add: entry_at_del)
  qed
  have up: "prefix q ?d" if "prefix q (dirname ?d)" for q
    using that prefix_order.order_trans [of q "butlast ?d" ?d]
    by (simp add: dirname_def prefixeq_butlast)
  have "cannotWrite lib asarFile ?nf ?d (del t p) fl = cannotWrite lib asarFile ?nf ?d t fl"
    using same up by (auto simp: cannotWrite_def split: sum.splits jsval.splits)
  with s same [of ?d] show ?thesis
    by (auto simp: settledT_def Let_def split: if_splits)
qed

lemma settledT_put:
  assumes s: "settledT lib asarFile destDir header g t fl"
    and m: "put t p b = Inr t'"
    and nofault: "fl p = None"
  shows "settledT lib asarFile destDir header g t' fl"
proof -
  let ?nf = "normalizeFilename g"
  let ?d = "path_join destDir ?nf"
  let ?e = "getAsarEntryInfo header ?nf"
  have at': "entry_at t' q = (if q = p then Some (KFile b) else entry_at t q)" for q
    using entry_at_put [OF m] by simp
  have notdir: "entry_at t p \<noteq> Some KDir"
    using put_ok [of t p b] m by auto
  have cw: "cannotWrite lib asarFile ?nf ?d t' fl" if "cannotWrite lib asarFile ?nf ?d t fl" "?d \<noteq> p"
  proof (cases "extractFile lib asarFile ?nf")
    case (Inl e)
    then show ?thesis by (simp add: cannotWrite_def)
  next
    case (Inr v)
    show ?thesis
    proof (cases v)
      case (Buffer bytes)
      with Inr that(1) consider "fl (dirname ?d) \<noteq> None"
        | q c where "prefix q (dirname ?d)" "entry_at t q = Some (KFile c)"
        | "entry_at t (dirname ?d) = Some KDir" "fl ?d \<noteq> None"
        by (auto simp: cannotWrite_def)
      then show ?thesis
      proof cases
        case 1
        with Inr Buffer show ?thesis by (simp add: cannotWrite_def)
      next
        case 2
        then have "prefix q (dirname ?d) \<and> (\<exists>c'. entry_at t' q = Some (KFile c'))"
          by (simp add: at')
        with Inr Buffer show ?thesis by (auto simp: cannotWrite_def)
      next
        case 3
        with notdir have "dirname ?d \<noteq> p" by auto
        with 3 Inr Buffer show ?thesis by (simp add: cannotWrite_def at')
      qed
    qed (use Inr in \<open>simp_all add: cannotWrite_def\<close>)
  qed
  show ?thesis
  proof (cases "isDir ?e")
    case True
    with s show ?thesis by (auto simp: settledT_def Let_def at')
  next
    case False
    show ?thesis
    proof (cases "?d = p")
      case True
      with False nofault show ?thesis by (simp add: settledT_def Let_def at')
    next
      case ne: False
      with s False cw show ?thesis
        by (auto simp: settledT_def Let_def at')
    qed
  qed
qed


subsection \<open>One iteration and the settled entries\<close>

lemma ensureDirSync_cases:
  assumes "ensureDirSync p w = (r, w')"
  obtains (failed) "r \<noteq> None" "w' = w"
      "faults w p \<noteq> None \<or> (\<exists>c. mkdirp (tree w) p = Inl c)"
    | (made) t' where "r = None" "faults w p = None" "mkdirp (tree w) p = Inr t'"
      "w' = w\<lparr>tree := t'\<rparr>"
  using assms by (auto simp: ensureDirSync_def split: option.splits sum.splits)

lemma writeFileSync_cases:
  assumes "writeFileSync p c w = (r, w')"
  obtains (failed) "r \<noteq> None" "w' = w"
      "faults w p \<noteq> None \<or> (\<exists>e. put (tree w) p c = Inl e)"
    | (written) t' where "r = None" "faults w p = None" "put (tree w) p c = Inr t'"
      "w' = w\<lparr>tree := t'\<rparr>"
  using assms by (auto simp: writeFileSync_def split: option.splits sum.splits)

lemma extractEntry_dir:
  assumes "isDir (getAsarEntryInfo header (normalizeFilename filename))"
  shows "extractEntry lib asarFile destDir header filename w =
    (if \<not> existsSync (path_join destDir (normalizeFilename filename)) w
     then ensureDirSync (path_join destDir (normalizeFilename filename)) w else (None, w))"
  using assms by (simp add: extractEntry_def Let_def)

lemma mkdirp_blocked:
  assumes "prefix q p" and "entry_at t q = Some (KFile c)"
  shows "\<exists>e. mkdirp t p = Inl e"
proof (cases "mkdirp t p")
  case (Inr t')
  then have "\<exists>t'. mkdirp t p = Inr t'" by blast
  with assms show ?thesis by (simp add: mkdirp_ok)
qed blast

lemma tryExtractFile_cannotWrite:
  assumes "cannotWrite lib asarFile nf d (tree w) (faults w)"
  shows "\<exists>r. tryExtractFile lib asarFile nf d w = (r, w)"
proof (cases "extractFile lib asarFile nf")
  case (Inl e)
  then show ?thesis by (simp add: tryExtractFile_def)
next
  case (Inr v)
  show ?thesis
  proof (cases v)
    case (Buffer b)
    with Inr assms consider "faults w (dirname d) \<noteq> None"
      | q c where "prefix q (dirname d)" "entry_at (tree w) q = Some (KFile c)"
      | "entry_at (tree w) (dirname d) = Some KDir" "faults w d \<noteq> None"
      by (auto simp: cannotWrite_def)
    then show ?thesis
    proof cases
      case 1
      with Inr Buffer show ?thesis
        by (auto simp: tryExtractFile_def ensureDirSync_def)
    next
      case 2
      then obtain e where "mkdirp (tree w) (dirname d) = Inl e"
        using mkdirp_blocked by blast
      with Inr Buffer show ?thesis
        by (auto simp: tryExtractFile_def ensureDirSync_def split: option.splits)
    next
      case 3
      then have "mkdirp (tree w) (dirname d) = Inr (tree w)"
        by (simp add: mkdirp_noop)
      with 3 Inr Buffer show ?thesis
        by (auto simp: tryExtractFile_def ensureDirSync_def writeFileSync_def split: option.splits)
    qed
  qed (use Inr in \<open>simp_all add: tryExtractFile_def\<close>)
qed

lemma extractMissing_settled:
  assumes "isUnpacked entry \<or> cannotWrite lib asarFile nf d (tree w) (faults w)"
  shows "\<exists>w'. extractMissing lib asarFile nf d entry w = (None, w')
    \<and> tree w' = tree w \<and> faults w' = faults w"
proof (cases "isUnpacked entry")
  case True
  then show ?thesis by (simp add: extractMissing_def warn_def)
next
  case False
  with assms obtain r where "tryExtractFile lib asarFile nf d w = (r, w)"
    using tryExtractFile_cannotWrite by blast
  with False show ?thesis
    by (cases r) (simp_all add: extractMissing_def warn_def)
qed

lemma settled_stable:
  assumes "settled lib asarFile destDir header f w"
  shows "\<exists>w'. extractEntry lib asarFile destDir header f w = (None, w')
    \<and> tree w' = tree w \<and> faults w' = faults w"
proof -
  let ?nf = "normalizeFilename f"
  let ?d = "path_join destDir ?nf"
  let ?e = "getAsarEntryInfo header ?nf"
  show ?thesis
  proof (cases "isDir ?e")
    case True
    with assms have "existsSync ?d w"
      by (simp add: settled_def settledT_def Let_def existsSync_iff)
    with True show ?thesis by (simp add: extractEntry_dir)
  next
    case False
    show ?thesis
    proof (cases "regularFileAt ?d w")
      case True
      with False show ?thesis by (simp add: extractEntry_file Let_def)
    next
      case nofile: False
      with assms False have absent: "faults w ?d \<noteq> None \<or> entry_at (tree w) ?d = None"
        and rest: "isUnpacked ?e \<or> cannotWrite lib asarFile ?nf ?d (tree w) (faults w)"
        by (auto simp: settled_def settledT_def Let_def regularFileAt_iff)
      from absent have "\<not> directoryAt ?d w"
        by (auto simp: directoryAt_iff)
      with False nofile have "extractEntry lib asarFile destDir header f w =
          extractMissing lib asarFile ?nf ?d ?e w"
        by (simp add: extractEntry_file Let_def)
      with extractMissing_settled [OF rest] show ?thesis by simp
    qed
  qed
qed

lemma extractMissing_settles:
  assumes run: "extractMissing lib asarFile nf d entry w = (r, w')"
    and absent: "faults w d \<noteq> None \<or> entry_at (tree w) d = None"
  shows "faults w' = faults w \<and>
    ((faults w' d = None \<and> (\<exists>c. entry_at (tree w') d = Some (KFile c)))
     \<or> ((faults w' d \<noteq> None \<or> entry_at (tree w') d = None) \<and>
         (isUnpacked entry \<or> cannotWrite lib asarFile nf d (tree w') (faults w'))))"
proof (cases "isUnpacked entry")
  case True
  with run absent show ?thesis by (auto simp: extractMissing_def warn_def)
next
  case False
  obtain r1 w1 where t: "tryExtractFile lib asarFile nf d w = (r1, w1)"
    by (cases "tryExtractFile lib asarFile nf d w")
  with run False have w': "tree w' = tree w1" "faults w' = faults w1"
    by (cases r1; auto simp: extractMissing_def warn_def)+
  have "faults w1 = faults w \<and>
    ((faults w1 d = None \<and> (\<exists>c. entry_at (tree w1) d = Some (KFile c)))
     \<or> ((faults w1 d \<noteq> None \<or> entry_at (tree w1) d = None) \<and>
         cannotWrite lib asarFile nf d (tree w1) (faults w1)))"
  proof (cases "extractFile lib asarFile nf")
    case (Inl e)
    with t absent show ?thesis by (auto simp: tryExtractFile_def cannotWrite_def)
  next
    case (Inr v)
    show ?thesis
    proof (cases v)
      case (Buffer b)
      obtain r2 w2 where e: "ensureDirSync (dirname d) w = (r2, w2)"
        by (cases "ensureDirSync (dirname d) w")
      from e show ?thesis
      proof (cases rule: ensureDirSync_cases)
        case failed
        then have blocked: "faults w (dirname d) \<noteq> None
            \<or> (\<exists>q c. prefix q (dirname d) \<and> entry_at (tree w) q = Some (KFile c))"
          using mkdirp_ok [of "tree w" "dirname d"] by (cases "mkdirp (tree w) (dirname d)") auto
        from failed t e Inr Buffer have "w1 = w"
          by (auto simp: tryExtractFile_def)
        with blocked absent Inr Buffer show ?thesis
          by (auto simp: cannotWrite_def)
      next
        case (made t2)
        have par: "entry_at t2 (dirname d) = Some KDir"
          using entry_at_mkdirp [OF made(3), of "dirname d"] by simp
        from made t e Inr Buffer have wr: "writeFileSync d b w2 = (r1, w1)"
          by (simp add: tryExtractFile_def)
        from wr show ?thesis
        proof (cases rule: writeFileSync_cases)
          case failed
          show ?thesis
          proof (cases "faults w d")
            case None
            with absent have "entry_at (tree w) d = None" by simp
            have "d \<noteq> []"
              using \<open>entry_at (tree w) d = None\<close> by auto
            then have "entry_at t2 d = None"
              using entry_at_mkdirp [OF made(3), of d] not_prefix_butlast [of d]
                \<open>entry_at (tree w) d = None\<close>
              by (simp add: dirname_def)
            with par \<open>d \<noteq> []\<close> have "\<exists>t'. put t2 d b = Inr t'"
              by (simp add: put_ok dirname_def)
            with failed made None show ?thesis by auto
          next
            case (Some c)
            with failed made par Inr Buffer show ?thesis
              by (auto simp: cannotWrite_def)
          qed
        next
          case (written t3)
          then have "entry_at (tree w1) d = Some (KFile b)"
            using entry_at_put [of "tree w2" d b t3 d] by simp
          with written made show ?thesis by simp
        qed
      qed
    qed (use Inr t absent in \<open>auto simp: tryExtractFile_def cannotWrite_def\<close>)
  qed
  with w' False show ?thesis by auto
qed

lemma settled_after:
  assumes "extractEntry lib asarFile destDir header f w = (None, w')"
  shows "settled lib asarFile destDir header f w'"
proof -
  let ?nf = "normalizeFilename f"
  let ?d = "path_join destDir ?nf"
  let ?e = "getAsarEntryInfo header ?nf"
  show ?thesis
  proof (cases "isDir ?e")
    case True
    show ?thesis
    proof (cases "existsSync ?d w")
      case True
      with \<open>isDir ?e\<close> assms show ?thesis
        by (auto simp: extractEntry_dir settled_def settledT_def Let_def existsSync_iff)
    next
      case False
      with True assms have e: "ensureDirSync ?d w = (None, w')"
        by (simp add: extractEntry_dir)
      from e show ?thesis
      proof (cases rule: ensureDirSync_cases)
        case (made t')
        with entry_at_mkdirp [OF made(3), of ?d] True show ?thesis
          by (simp add: settled_def settledT_def Let_def)
      qed simp
    qed
  next
    case False
    note E = extractEntry_file [OF False, of lib asarFile destDir w]
    show ?thesis
    proof (cases "regularFileAt ?d w")
      case True
      with E assms False show ?thesis
        by (auto simp: Let_def settled_def settledT_def regularFileAt_iff)
    next
      case nofile: False
      show ?thesis
      proof (cases "directoryAt ?d w")
        case True
        obtain r1 w1 where rm: "removeSync ?d w = (r1, w1)"
          by (cases "removeSync ?d w")
        with E assms nofile True have "r1 = None"
          by (cases r1) (simp_all add: Let_def)
        with removeSync_dir [OF True] rm have d: "?d \<noteq> []"
          and w1: "w1 = w\<lparr>tree := del (tree w) ?d\<rparr>"
          by simp_all
        from E assms nofile True rm \<open>r1 = None\<close> w1
        have run: "extractMissing lib asarFile ?nf ?d ?e (w\<lparr>tree := del (tree w) ?d\<rparr>) = (None, w')"
          by (simp add: Let_def)
        have "entry_at (tree (w\<lparr>tree := del (tree w) ?d\<rparr>)) ?d = None"
          using d by (simp add: entry_at_del)
        with extractMissing_settles [OF run] False show ?thesis
          by (auto simp: settled_def settledT_def Let_def)
      next
        case nodir: False
        with E assms nofile have
          run: "extractMissing lib asarFile ?nf ?d ?e w = (None, w')"
          by (simp add: Let_def)
        have "faults w ?d \<noteq> None \<or> entry_at (tree w) ?d = None"
        proof (cases "entry_at (tree w) ?d")
          case (Some k)
          with nofile nodir show ?thesis
            by (cases k) (auto simp: regularFileAt_iff directoryAt_iff)
        qed simp
        with extractMissing_settles [OF run] False show ?thesis
          by (auto simp: settled_def settledT_def Let_def)
      qed
    qed
  qed
qed

lemma extractMissing_preserves:
  assumes s: "settledT lib asarFile destDir header g (tree w) (faults w)"
    and run: "extractMissing lib asarFile nf d entry w = (r, w')"
    and away: "\<not> isDir (getAsarEntryInfo header (normalizeFilename g)) \<Longrightarrow>
        \<not> prefix (path_join destDir (normalizeFilename g)) (dirname d)
        \<or> entry_at (tree w) (path_join destDir (normalizeFilename g)) \<noteq> None"
  shows "settledT lib asarFile destDir header g (tree w') (faults w')"
proof (cases "isUnpacked entry")
  case True
  with run s show ?thesis by (auto simp: extractMissing_def warn_def)
next
  case False
  obtain r1 w1 where t: "tryExtractFile lib asarFile nf d w = (r1, w1)"
    by (cases "tryExtractFile lib asarFile nf d w")
  with run False have w': "tree w' = tree w1" "faults w' = faults w1"
    by (cases r1; auto simp: extractMissing_def warn_def)+
  have "settledT lib asarFile destDir header g (tree w1) (faults w1)"
  proof (cases "extractFile lib asarFile nf")
    case (Inl e)
    with t s show ?thesis by (auto simp: tryExtractFile_def)
  next
    case (Inr v)
    show ?thesis
    proof (cases v)
      case (Buffer b)
      obtain r2 w2 where e: "ensureDirSync (dirname d) w = (r2, w2)"
        by (cases "ensureDirSync (dirname d) w")
      from e show ?thesis
      proof (cases rule: ensureDirSync_cases)
        case failed
        with t e Inr Buffer have "w1 = w" by (auto simp: tryExtractFile_def)
        with s show ?thesis by simp
      next
        case (made t2)
        have s2: "settledT lib asarFile destDir header g t2 (faults w)"
          using settledT_mkdirp [OF s made(3)] away by blast
        from made t e Inr Buffer have wr: "writeFileSync d b w2 = (r1, w1)"
          by (simp add: tryExtractFile_def)
        from wr show ?thesis
        proof (cases rule: writeFileSync_cases)
          case failed
          with s2 made show ?thesis by simp
        next
          case (written t3)
          with settledT_put [OF s2, of d b t3] made show ?thesis by simp
        qed
      qed
    qed (use Inr t s in \<open>auto simp: tryExtractFile_def\<close>)
  qed
  with w' show ?thesis by simp
qed

lemma settled_preserved:
  assumes f: "wellListed destDir header f" and g: "wellListed destDir header g"
    and s: "settled lib asarFile destDir header g w"
    and run: "extractEntry lib asarFile destDir header f w = (None, w')"
  shows "settled lib asarFile destDir header g w'"
proof -
  let ?nf = "normalizeFilename f"
  let ?d = "path_join destDir ?nf"
  let ?e = "getAsarEntryInfo header ?nf"
  let ?dg = "path_join destDir (normalizeFilename g)"
  let ?eg = "getAsarEntryInfo header (normalizeFilename g)"
  from s have sT: "settledT lib asarFile destDir header g (tree w) (faults w)"
    by (simp add: settled_def)
  show ?thesis
  proof (cases "isDir ?e")
    case True
    show ?thesis
    proof (cases "existsSync ?d w")
      case True
      with \<open>isDir ?e\<close> run s show ?thesis by (simp add: extractEntry_dir)
    next
      case False
      with True run have e: "ensureDirSync ?d w = (None, w')"
        by (simp add: extractEntry_dir)
      from e show ?thesis
      proof (cases rule: ensureDirSync_cases)
        case (made t')
        have "\<not> prefix ?dg ?d" if "\<not> isDir ?eg"
          using file_entry_has_no_descendant [OF g f that] True that by auto
        with settledT_mkdirp [OF sT made(3)] made show ?thesis
          by (auto simp: settled_def)
      qed simp
    qed
  next
    case False
    note E = extractEntry_file [OF False, of lib asarFile destDir w]
    have parent: "\<not> prefix ?dg (dirname ?d) \<or> entry_at t ?dg \<noteq> None" if "\<not> isDir ?eg" for t
    proof (cases "prefix ?dg (dirname ?d)")
      case True
      then have "prefix ?dg ?d"
        using prefix_order.order_trans [of ?dg "butlast ?d" ?d]
        by (simp add: dirname_def prefixeq_butlast)
      with file_entry_has_no_descendant [OF g f that] have "?dg = ?d" by simp
      with True have "?d = []"
        using not_prefix_butlast [of ?d] by (auto simp: dirname_def)
      with \<open>?dg = ?d\<close> show ?thesis by simp
    qed simp
    show ?thesis
    proof (cases "regularFileAt ?d w")
      case True
      with E run s show ?thesis by (simp add: Let_def)
    next
      case nofile: False
      show ?thesis
      proof (cases "directoryAt ?d w")
        case True
        obtain r1 w1 where rm: "removeSync ?d w = (r1, w1)"
          by (cases "removeSync ?d w")
        with E run nofile True have "r1 = None"
          by (cases r1) (simp_all add: Let_def)
        with removeSync_dir [OF True] rm have d: "?d \<noteq> []"
          and w1: "w1 = w\<lparr>tree := del (tree w) ?d\<rparr>"
          by simp_all
        from E run nofile True rm \<open>r1 = None\<close> w1
        have rest: "extractMissing lib asarFile ?nf ?d ?e (w\<lparr>tree := del (tree w) ?d\<rparr>) = (None, w')"
          by (simp add: Let_def)
        have "\<not> prefix ?d ?dg"
        proof
          assume "prefix ?d ?dg"
          with file_entry_has_no_descendant [OF f g False]
          have same: "?d = ?dg" "?e = ?eg" by simp_all
          with True have "faults w ?dg = None" "entry_at (tree w) ?dg = Some KDir"
            by (simp_all add: directoryAt_iff)
          with sT False same show False
            by (auto simp: settledT_def Let_def)
        qed
        then have "settledT lib asarFile destDir header g (del (tree w) ?d) (faults w)"
          using settledT_del [OF sT d] by simp
        then have "settledT lib asarFile destDir header g
            (tree (w\<lparr>tree := del (tree w) ?d\<rparr>)) (faults (w\<lparr>tree := del (tree w) ?d\<rparr>))"
          by simp
        from extractMissing_preserves [OF this rest] parent show ?thesis
          by (auto simp: settled_def)
      next
        case nodir: False
        with E run nofile have
          rest: "extractMissing lib asarFile ?nf ?d ?e w = (None, w')"
          by (simp add: Let_def)
        from extractMissing_preserves [OF sT rest] parent show ?thesis
          by (auto simp: settled_def)
      qed
    qed
  qed
qed

subsection \<open>The loop\<close>

lemma extractEntries_preserves:
  assumes "extractEntries lib asarFile destDir header fs w = (None, w')"
    and "\<forall>f \<in> set fs. wellListed destDir header f"
    and "wellListed destDir header g"
    and "settled lib asarFile destDir header g w"
  shows "settled lib asarFile destDir header g w'"
  using assms
proof (induction fs arbitrary: w)
  case Nil
  then show ?case by simp
next
  case (Cons f fs)
  obtain r w1 where step: "extractEntry lib asarFile destDir header f w = (r, w1)"
    by (cases "extractEntry lib asarFile destDir header f w")
  with Cons.prems(1) have r: "r = None"
    and rest: "extractEntries lib asarFile destDir header fs w1 = (None, w')"
    by (cases r; simp)+
  from settled_preserved [OF _ Cons.prems(3,4) step [unfolded r]] Cons.prems(2)
  have "settled lib asarFile destDir header g w1" by simp
  with Cons.IH [OF rest] Cons.prems(2,3) show ?case by simp
qed

lemma extractEntries_settles:
  assumes "extractEntries lib asarFile destDir header fs w = (None, w')"
    and "\<forall>f \<in> set fs. wellListed destDir header f"
  shows "\<forall>f \<in> set fs. settled lib asarFile destDir header f w'"
  using assms
proof (induction fs arbitrary: w)
  case Nil
  then show ?case by simp
next
  case (Cons f fs)
  obtain r w1 where step: "extractEntry lib asarFile destDir header f w = (r, w1)"
    by (cases "extractEntry lib asarFile destDir header f w")
  with Cons.prems(1) have r: "r = None"
    and rest: "extractEntries lib asarFile destDir header fs w1 = (None, w')"
    by (cases r; simp)+
  have "settled lib asarFile destDir header f w1"
    using settled_after step r by blast
  with extractEntries_preserves [OF rest, of f] Cons.prems(2)
  have "settled lib asarFile destDir header f w'" by simp
  with Cons.IH [OF rest] Cons.prems(2) show ?case by simp
qed

lemma extractEntries_stable:
  assumes "\<forall>f \<in> set fs. settled lib asarFile destDir header f v"
  shows "\<exists>v'. extractEntries lib asarFile destDir header fs v = (None, v')
    \<and> tree v' = tree v \<and> faults v' = faults v"
  using assms
proof (induction fs arbitrary: v)
  case Nil
  then show ?case by simp
next
  case (Cons f fs)
  then obtain v1 where step: "extractEntry lib asarFile destDir header f v = (None, v1)"
    and same: "tree v1 = tree v" "faults v1 = faults v"
    using settled_stable [of lib asarFile destDir header f v] by auto
  from Cons.prems same have "\<forall>f \<in> set fs. settled lib asarFile destDir header f v1"
    by (simp add: settled_def)
  from Cons.IH [OF this] step same show ?case by auto
qed

lemma extractAsarManually_again:
  assumes first: "extractAsarManually lib asarFile destDir unpackedDir w = (None, w')"
    and listing: "listPackage lib asarFile = Inr filenames"
    and header: "readArchiveHeaderSync lib asarFile = Inr header"
    and listed: "\<forall>f \<in> set filenames. wellListed destDir header f"
    and same: "tree v = tree w'" "faults v = faults w'"
  shows "\<exists>v'. extractAsarManually lib asarFile destDir unpackedDir v = (None, v')
    \<and> tree v' = tree w' \<and> faults v' = faults w'"
proof -
  from first listing header
  have "extractEntries lib asarFile destDir header filenames w = (None, w')"
    by (simp add: extractAsarManually_def)
  from extractEntries_settles [OF this listed] same
  have "\<forall>f \<in> set filenames. settled lib asarFile destDir header f v"
    by (simp add: settled_def)
  from extractEntries_stable [OF this] listing header same show ?thesis
    by (simp add: extractAsarManually_def)
qed

section \<open>The whole extraction a second time\<close>

subsection \<open>Paths and single operations\<close>

lemma apart_append:
  assumes "apart a b"
  shows "\<not> prefix (a @ p) (b @ q)" and "\<not> prefix (b @ q) (a @ p)" and "a @ p \<noteq> b @ q"
proof -
  show 1: "\<not> prefix (a @ p) (b @ q)"
  proof
    assume "prefix (a @ p) (b @ q)"
    then have "prefix a (b @ q)" using append_prefixD by blast
    moreover have "prefix b (b @ q)" by simp
    ultimately show False using assms prefix_same_cases [of a "b @ q" b] by (auto simp: apart_def)
  qed
  show 2: "\<not> prefix (b @ q) (a @ p)"
  proof
    assume "prefix (b @ q) (a @ p)"
    then have "prefix b (a @ p)" using append_prefixD by blast
    moreover have "prefix a (a @ p)" by simp
    ultimately show False using assms prefix_same_cases [of a "a @ p" b] by (auto simp: apart_def)
  qed
  from 1 show "a @ p \<noteq> b @ q" by auto
qed

lemma put_noop: "entry_at t p = Some (KFile c) \<Longrightarrow> put t p c = Inr t"
proof (induction p arbitrary: t)
  case Nil
  then show ?case by (cases t) auto
next
  case (Cons s p)
  then obtain es where t: "t = Dir es" by (cases t) auto
  with Cons.prems obtain child where c: "map_of es s = Some child" "entry_at child p = Some (KFile c)"
    by (auto simp: entry_at_Dir_Cons split: option.splits)
  with Cons.IH [of child] t show ?case
    by (simp add: update_triv)
qed

lemma put_Nil_error: "put t [] c = Inl e \<Longrightarrow> e = ''EISDIR''"
  by (cases t) auto

lemma put_error:
  "put t p c = Inl e \<Longrightarrow> entry_at t (butlast p) = Some KDir \<Longrightarrow> e = ''EISDIR''"
proof (induction p arbitrary: t)
  case Nil
  then show ?case by (cases t) auto
next
  case (Cons s p)
  then obtain es where t: "t = Dir es" by (cases t; cases p) auto
  show ?case
  proof (cases p)
    case Nil
    with Cons.prems t show ?thesis
      by (auto split: option.splits sum.splits dest: put_Nil_error)
  next
    case (Cons s' p')
    with Cons.prems t obtain child where c: "map_of es s = Some child"
      "entry_at child (butlast p) = Some KDir"
      by (auto simp: entry_at_Dir_Cons split: option.splits)
    with Cons.prems t Cons.IH [of child] show ?thesis
      by (auto split: sum.splits)
  qed
qed

lemma mkdirp_error: "mkdirp t p = Inl e \<Longrightarrow> e = ''EEXIST'' \<or> e = ''ENOTDIR''"
proof (induction p arbitrary: t)
  case Nil
  then show ?case by (cases t) auto
next
  case (Cons s p)
  then show ?case by (cases t) (auto split: option.splits sum.splits)
qed

lemma lookup_append:
  "lookup t (p @ q) = (case lookup t p of None \<Rightarrow> None | Some nd \<Rightarrow> lookup nd q)"
proof (induction p arbitrary: t)
  case Nil
  then show ?case by simp
next
  case (Cons s p)
  then show ?case by (cases t) (auto split: option.splits)
qed

lemma readdirSync_items:
  assumes "readdirSync p w = Inr items"
  shows "set items = {s. entry_at (tree w) (p @ [s]) \<noteq> None}"
    and "faults w p = None" and "entry_at (tree w) p = Some KDir"
proof -
  from assms obtain es where f: "faults w p = None" and l: "lookup (tree w) p = Some (Dir es)"
    and items: "items = remdups (map fst es)"
    by (auto simp: readdirSync_def split: option.splits fsnode.splits)
  show "faults w p = None" by fact
  from l show "entry_at (tree w) p = Some KDir" by (simp add: entry_at_def)
  have "entry_at (tree w) (p @ [s]) \<noteq> None \<longleftrightarrow> map_of es s \<noteq> None" for s
    using l by (auto simp: entry_at_def lookup_append split: option.splits)
  then have "entry_at (tree w) (p @ [s]) \<noteq> None \<longleftrightarrow> s \<in> fst ` set es" for s
    by (simp add: map_of_eq_None_iff)
  with items show "set items = {s. entry_at (tree w) (p @ [s]) \<noteq> None}" by auto
qed

lemma keeps_refl: "keeps s d w w"
  by (simp add: keeps_def)

lemma keeps_trans: "keeps s d w1 w2 \<Longrightarrow> keeps s d w2 w3 \<Longrightarrow> keeps s d w1 w3"
  by (auto simp: keeps_def)

lemma keeps_same:
  "keeps s d w x \<Longrightarrow> tree y = tree x \<Longrightarrow> faults y = faults x \<Longrightarrow> keeps s d w y"
  by (simp add: keeps_def)

lemma keeps_from:
  "keeps s d w x \<Longrightarrow> tree v = tree w \<Longrightarrow> faults v = faults w \<Longrightarrow> keeps s d v x"
  by (simp add: keeps_def)

lemma keeps_ensureDirSync:
  assumes ap: "apart s d" and run: "ensureDirSync (d @ q) w = (r, w')"
  shows "keeps s d w w'"
  using run
proof (cases rule: ensureDirSync_cases)
  case failed
  then show ?thesis by (simp add: keeps_refl)
next
  case (made t')
  have at: "entry_at t' z = (if prefix z (d @ q) then Some KDir else entry_at (tree w) z)" for z
    using entry_at_mkdirp [OF made(3)] by simp
  have src: "entry_at t' (s @ z) = entry_at (tree w) (s @ z)" for z
    using apart_append(1) [OF ap] by (simp add: at)
  have dst: "entry_at t' (d @ z) = entry_at (tree w) (d @ z)" if "entry_at (tree w) (d @ z) \<noteq> None" for z
    using that mkdirp_grows [OF made(3), of "d @ z"] by auto
  from src dst made show ?thesis by (auto simp: keeps_def)
qed

lemma keeps_writeFileSync:
  assumes ap: "apart s d" and run: "writeFileSync (d @ q) c w = (r, w')"
    and src: "entry_at (tree w) (s @ q) = Some (KFile c)"
  shows "keeps s d w w'"
  using run
proof (cases rule: writeFileSync_cases)
  case failed
  then show ?thesis by (simp add: keeps_refl)
next
  case (written t')
  have at: "entry_at t' z = (if z = d @ q then Some (KFile c) else entry_at (tree w) z)" for z
    using entry_at_put [OF written(3)] by simp
  have "entry_at t' (s @ z) = entry_at (tree w) (s @ z)" for z
    using apart_append(3) [OF ap] by (simp add: at)
  with at src written show ?thesis by (auto simp: keeps_def)
qed


lemma readFileSync_entry:
  "readFileSync p w = Inr c \<longleftrightarrow> faults w p = None \<and> entry_at (tree w) p = Some (KFile c)"
  by (auto simp: readFileSync_def entry_at_def kind_of_def split: option.splits fsnode.splits)

lemma readdirSync_ok:
  assumes "faults w p = None" and "entry_at (tree w) p = Some KDir"
  shows "\<exists>items. readdirSync p w = Inr items"
proof -
  from assms(2) obtain nd where "lookup (tree w) p = Some nd" "kind_of nd = KDir"
    by (auto simp: entry_at_def)
  then obtain es where "lookup (tree w) p = Some (Dir es)"
    by (cases nd) auto
  with assms(1) show ?thesis by (simp add: readdirSync_def)
qed

lemma skippable_io_error:
  "skippable (io_error c p) = (c = ''ENOENT'' \<or> c = ''EPERM'' \<or> c = ''EACCES'')"
  by (simp add: skippable_def io_error_def)

lemma ensureDirSync_noop:
  "faults x p = None \<Longrightarrow> entry_at (tree x) p = Some KDir \<Longrightarrow> ensureDirSync p x = (None, x)"
  by (simp add: ensureDirSync_def mkdirp_noop)

lemma writeFileSync_noop:
  "faults x p = None \<Longrightarrow> entry_at (tree x) p = Some (KFile c) \<Longrightarrow> writeFileSync p c x = (None, x)"
  by (simp add: writeFileSync_def put_noop)

lemma ensureDirSync_skippable:
  assumes "ensureDirSync p w = (Some e, w')" and "skippable e"
  shows "\<exists>c. faults w p = Some c \<and> e = io_error c p \<and> w' = w"
  using assms mkdirp_error [of "tree w" p]
  by (auto simp: ensureDirSync_def skippable_io_error split: option.splits sum.splits)

lemma writeFileSync_skippable:
  assumes "writeFileSync p c w = (Some e, w')" and "skippable e"
    and "entry_at (tree w) (butlast p) = Some KDir"
  shows "\<exists>cf. faults w p = Some cf \<and> e = io_error cf p \<and> w' = w"
  using assms put_error [of "tree w" p c]
  by (auto simp: writeFileSync_def skippable_io_error split: option.splits sum.splits)

lemma keeps_mirror:
  assumes "keeps s d w x" and "entry_at (tree w) (s @ z) = Some k"
    and "entry_at (tree w) (d @ z) = Some k"
  shows "entry_at (tree x) (d @ z) = Some k" and "entry_at (tree x) (s @ z) = Some k"
  using assms by (auto simp: keeps_def)

subsection \<open>The copy and what it leaves alone\<close>

text \<open>
  The copy writes below the destination only, and what it writes there is what the
  external-storage directory holds: every step of it keeps the faults, the source and
  the copies made so far.
\<close>

lemma copyEntry_keeps:
  assumes ap: "apart s d"
    and U: "\<And>q w r w'. copyUnpackedFiles n (s @ q) (d @ q) w = Some (r, w') \<Longrightarrow> keeps s d w w'"
    and run: "copyEntry n (s @ q) (d @ q) w = Some (r, w')" and q: "q \<noteq> []"
  shows "keeps s d w w'"
proof (cases "statSync (s @ q) w")
  case (Inl e)
  with run show ?thesis by (simp add: copyEntry.simps keeps_refl)
next
  case (Inr st)
  show ?thesis
  proof (cases "isDirectory st")
    case True
    obtain re we where e: "ensureDirSync (d @ q) w = (re, we)"
      by (cases "ensureDirSync (d @ q) w")
    note k1 = keeps_ensureDirSync [OF ap e]
    show ?thesis
    proof (cases re)
      case None
      with run Inr True e have "copyUnpackedFiles n (s @ q) (d @ q) we = Some (r, w')"
        by (simp add: copyEntry.simps)
      from keeps_trans [OF k1 U [OF this]] show ?thesis .
    next
      case (Some err)
      with run Inr True e k1 show ?thesis by (simp add: copyEntry.simps)
    qed
  next
    case False
    have dn: "dirname (d @ q) = d @ butlast q"
      using q by (simp add: dirname_def butlast_append)
    obtain re we where e: "ensureDirSync (d @ butlast q) w = (re, we)"
      by (cases "ensureDirSync (d @ butlast q) w")
    note k1 = keeps_ensureDirSync [OF ap e]
    show ?thesis
    proof (cases re)
      case None
      with run Inr False e dn have c: "copyFileSync (s @ q) (d @ q) we = (r, w')"
        by (simp add: copyEntry.simps)
      show ?thesis
      proof (cases "readFileSync (s @ q) we")
        case (Inl e')
        with c k1 show ?thesis by (simp add: copyFileSync_def)
      next
        case (Inr c')
        with c have "writeFileSync (d @ q) c' we = (r, w')" by (simp add: copyFileSync_def)
        from keeps_writeFileSync [OF ap this] Inr have "keeps s d we w'"
          by (simp add: readFileSync_entry)
        with k1 show ?thesis by (rule keeps_trans)
      qed
    next
      case (Some err)
      with run Inr False e dn k1 show ?thesis by (simp add: copyEntry.simps)
    qed
  qed
qed

lemma keeps_warn: "keeps s d w x \<Longrightarrow> keeps s d w (warn m x)"
  by (simp add: keeps_def warn_def)

lemma copyItems_keeps:
  assumes E: "\<And>item w r w'. copyEntry n (s @ q @ [item]) (d @ q @ [item]) w = Some (r, w') \<Longrightarrow>
        keeps s d w w'"
    and run: "copyItems n (s @ q) (d @ q) items w = Some (r, w')"
  shows "keeps s d w w'"
  using run
proof (induction items arbitrary: w)
  case Nil
  then show ?case by (simp add: keeps_refl)
next
  case (Cons item items)
  from Cons.prems obtain r1 w1 where step: "copyEntry n (s @ q @ [item]) (d @ q @ [item]) w = Some (r1, w1)"
    by (cases "copyEntry n (s @ q @ [item]) (d @ q @ [item]) w") auto
  note k1 = E [OF step]
  show ?case
  proof (cases r1)
    case None
    with Cons.prems step have "copyItems n (s @ q) (d @ q) items w1 = Some (r, w')" by simp
    from keeps_trans [OF k1 Cons.IH [OF this]] show ?thesis .
  next
    case (Some err)
    show ?thesis
    proof (cases "skippable err")
      case True
      let ?w2 = "warn (''Warning: Skipping inaccessible file: '' @ render (s @ q @ [item])) w1"
      from True Some Cons.prems step have "copyItems n (s @ q) (d @ q) items ?w2 = Some (r, w')"
        by simp
      from keeps_trans [OF keeps_warn [OF k1] Cons.IH [OF this]] show ?thesis .
    next
      case False
      with Some Cons.prems step k1 show ?thesis by simp
    qed
  qed
qed

lemma copyUnpackedFiles_keeps:
  "apart s d \<Longrightarrow> copyUnpackedFiles n (s @ q) (d @ q) w = Some (r, w') \<Longrightarrow> keeps s d w w'"
proof (induction n arbitrary: q w r w')
  case 0
  then show ?case by simp
next
  case (Suc n)
  show ?case
  proof (cases "existsSync (s @ q) w")
    case False
    with Suc.prems show ?thesis by (simp add: keeps_refl)
  next
    case True
    show ?thesis
    proof (cases "readdirSync (s @ q) w")
      case (Inl e)
      with True Suc.prems show ?thesis by (simp add: keeps_refl)
    next
      case (Inr items)
      with True Suc.prems have run: "copyItems n (s @ q) (d @ q) items w = Some (r, w')" by simp
      have "keeps s d v v'" if "copyEntry n (s @ q @ [item]) (d @ q @ [item]) v = Some (r', v')"
        for item v r' v'
        using copyEntry_keeps [OF Suc.prems(1) Suc.IH [OF Suc.prems(1)], where q = "q @ [item]"] that
        by simp
      from copyItems_keeps [OF this run] show ?thesis .
    qed
  qed
qed


subsection \<open>The copy a second time\<close>

text \<open>
  Every entry that passed in a first copy passes again in any world that keeps what
  the first copy left, and changes nothing there: a skipped entry is skipped for the
  same fault, a directory is found in place, a file is written over its own copy.
\<close>

lemma copyItems_each:
  assumes ap: "apart s d"
    and run: "copyItems n (s @ q) (d @ q) items w = Some (None, w')"
  shows "\<forall>item \<in> set items. \<exists>wa r wb.
      copyEntry n (s @ q @ [item]) (d @ q @ [item]) wa = Some (r, wb) \<and> passed r \<and> keeps s d wb w'"
  using run
proof (induction items arbitrary: w)
  case Nil
  then show ?case by simp
next
  case (Cons item items)
  have E: "keeps s d v v'" if "copyEntry n (s @ q @ [it]) (d @ q @ [it]) v = Some (r', v')"
    for it v r' v'
    using copyEntry_keeps [OF ap copyUnpackedFiles_keeps [OF ap], where q = "q @ [it]"] that
    by simp
  from Cons.prems obtain r1 w1 where step: "copyEntry n (s @ q @ [item]) (d @ q @ [item]) w = Some (r1, w1)"
    by (cases "copyEntry n (s @ q @ [item]) (d @ q @ [item]) w") auto
  let ?w2 = "case r1 of None \<Rightarrow> w1
    | Some e \<Rightarrow> warn (''Warning: Skipping inaccessible file: '' @ render (s @ q @ [item])) w1"
  from Cons.prems step have ok: "passed r1"
    and rest: "copyItems n (s @ q) (d @ q) items ?w2 = Some (None, w')"
    by (auto simp: passed_def split: option.splits if_splits)
  have "keeps s d ?w2 w'"
    using copyItems_keeps [OF E rest] .
  then have "keeps s d w1 w'"
    by (cases r1) (auto simp: keeps_def warn_def)
  with step ok have "\<exists>wa r wb. copyEntry n (s @ q @ [item]) (d @ q @ [item]) wa = Some (r, wb)
      \<and> passed r \<and> keeps s d wb w'"
    by blast
  with Cons.IH [OF rest] show ?case by simp
qed

lemma copyItems_again:
  assumes "\<forall>item \<in> set items. \<forall>y. tree y = tree x \<and> faults y = faults x \<longrightarrow>
      (\<exists>r u. copyEntry n (s @ [item]) (d @ [item]) y = Some (r, u)
         \<and> tree u = tree y \<and> faults u = faults y \<and> passed r)"
    and "tree y = tree x" and "faults y = faults x"
  shows "\<exists>u. copyItems n s d items y = Some (None, u) \<and> tree u = tree x \<and> faults u = faults x"
  using assms
proof (induction items arbitrary: y)
  case Nil
  then show ?case by simp
next
  case (Cons item items)
  from Cons.prems obtain r u where step: "copyEntry n (s @ [item]) (d @ [item]) y = Some (r, u)"
    and same: "tree u = tree x" "faults u = faults x" and ok: "passed r"
    by fastforce
  let ?u2 = "case r of None \<Rightarrow> u
    | Some e \<Rightarrow> warn (''Warning: Skipping inaccessible file: '' @ render (s @ [item])) u"
  have same2: "tree ?u2 = tree x" "faults ?u2 = faults x"
    using same by (cases r; simp add: warn_def)+
  have "copyItems n s d (item # items) y = copyItems n s d items ?u2"
    using step ok by (cases r) (simp_all add: passed_def)
  with Cons.IH [OF _ same2] Cons.prems(1) show ?case by simp
qed


lemma statSync_Inr:
  "statSync p w = Inr st \<longleftrightarrow>
     faults w p = None \<and>
     (case st of Directory \<Rightarrow> entry_at (tree w) p = Some KDir
      | RegularFile \<Rightarrow> (\<exists>c. entry_at (tree w) p = Some (KFile c)))"
  by (auto simp: statSync_entry split: option.splits kind.splits stats.splits)

lemma ensureDirSync_fault:
  "faults x p = Some c \<Longrightarrow> ensureDirSync p x = (Some (io_error c p), x)"
  by (simp add: ensureDirSync_def)

lemma writeFileSync_fault:
  "faults x p = Some c \<Longrightarrow> writeFileSync p b x = (Some (io_error c p), x)"
  by (simp add: writeFileSync_def)

lemma ensureDirSync_made:
  assumes "ensureDirSync p w = (None, w')"
  shows "faults w p = None" and "entry_at (tree w') p = Some KDir"
  using assms entry_at_mkdirp [of "tree w" p _ p]
  by (auto simp: ensureDirSync_def split: option.splits sum.splits)

lemma copyEntry_again:
  assumes ap: "apart s d"
    and U: "\<And>q w w' x. copyUnpackedFiles n (s @ q) (d @ q) w = Some (None, w') \<Longrightarrow>
        keeps s d w' x \<Longrightarrow>
        \<exists>u. copyUnpackedFiles n (s @ q) (d @ q) x = Some (None, u)
          \<and> tree u = tree x \<and> faults u = faults x"
    and run: "copyEntry n (s @ q) (d @ q) wa = Some (r, wb)" and ok: "passed r"
    and q: "q \<noteq> []" and k: "keeps s d wb x"
  shows "\<exists>r' u. copyEntry n (s @ q) (d @ q) x = Some (r', u)
    \<and> tree u = tree x \<and> faults u = faults x \<and> passed r'"
proof -
  have kab: "keeps s d wa wb"
    using copyEntry_keeps [OF ap copyUnpackedFiles_keeps [OF ap] run q] .
  have kax: "keeps s d wa x"
    using keeps_trans [OF kab k] .
  have fx: "faults x = faults wa"
    using kax by (simp add: keeps_def)
  have sx: "entry_at (tree x) (s @ z) = entry_at (tree wa) (s @ z)" for z
    using kax by (simp add: keeps_def)
  have stat: "statSync (s @ q) x = statSync (s @ q) wa"
    unfolding statSync_entry fx sx ..
  show ?thesis
  proof (cases "statSync (s @ q) wa")
    case (Inl e)
    with run have "r = Some e" by (simp add: copyEntry.simps)
    with ok stat Inl show ?thesis by (simp add: copyEntry.simps)
  next
    case (Inr st)
    then have nofault: "faults wa (s @ q) = None"
      by (simp add: statSync_Inr)
    show ?thesis
    proof (cases st)
      case Directory
      with Inr have src: "entry_at (tree wa) (s @ q) = Some KDir"
        by (simp add: statSync_Inr)
      obtain re we where e: "ensureDirSync (d @ q) wa = (re, we)"
        by (cases "ensureDirSync (d @ q) wa")
      show ?thesis
      proof (cases re)
        case (Some err)
        with run Inr Directory e have r: "r = Some err"
          by (simp add: copyEntry.simps isDirectory_def)
        with ok have "skippable err" by (simp add: passed_def)
        with ensureDirSync_skippable [of "d @ q" wa err we] e Some
        obtain c where "faults wa (d @ q) = Some c" "err = io_error c (d @ q)" by auto
        then have "ensureDirSync (d @ q) x = (Some err, x)"
          by (simp add: ensureDirSync_fault fx)
        with stat Inr Directory r ok show ?thesis
          by (simp add: copyEntry.simps isDirectory_def)
      next
        case None
        with run Inr Directory e
        have rec: "copyUnpackedFiles n (s @ q) (d @ q) we = Some (r, wb)"
          by (simp add: copyEntry.simps isDirectory_def)
        note kae = keeps_ensureDirSync [OF ap e]
        from e None have made: "faults wa (d @ q) = None" "entry_at (tree we) (d @ q) = Some KDir"
          using ensureDirSync_made by blast+
        from kae src nofault have src': "entry_at (tree we) (s @ q) = Some KDir"
          and nofault': "faults we (s @ q) = None"
          by (simp_all add: keeps_def)
        have "r = None"
        proof (cases r)
          case (Some err)
          with ok have "skippable err" by (simp add: passed_def)
          with copyUnpackedFiles_skippable [of n "s @ q" "d @ q" we err wb] rec Some
          have "readdirSync (s @ q) we = Inl err" by simp
          with readdirSync_ok [OF nofault' src'] show ?thesis by simp
        qed simp
        with rec have rec: "copyUnpackedFiles n (s @ q) (d @ q) we = Some (None, wb)" by simp
        from U [OF rec k] obtain u where u: "copyUnpackedFiles n (s @ q) (d @ q) x = Some (None, u)"
          "tree u = tree x" "faults u = faults x"
          by blast
        have "keeps s d we x"
          using keeps_trans [OF copyUnpackedFiles_keeps [OF ap rec] k] .
        from keeps_mirror(1) [OF this src' made(2)] made(1)
        have "ensureDirSync (d @ q) x = (None, x)"
          by (simp add: ensureDirSync_noop fx)
        with stat Inr Directory u show ?thesis
          by (simp add: copyEntry.simps isDirectory_def passed_def)
      qed
    next
      case RegularFile
      with Inr obtain c0 where src: "entry_at (tree wa) (s @ q) = Some (KFile c0)"
        by (auto simp: statSync_Inr)
      have dn: "dirname (d @ q) = d @ butlast q" "butlast (d @ q) = d @ butlast q"
        using q by (simp_all add: dirname_def butlast_append)
      obtain re we where e: "ensureDirSync (d @ butlast q) wa = (re, we)"
        by (cases "ensureDirSync (d @ butlast q) wa")
      show ?thesis
      proof (cases re)
        case (Some err)
        with run Inr RegularFile e dn have r: "r = Some err"
          by (simp add: copyEntry.simps isDirectory_def)
        with ok have "skippable err" by (simp add: passed_def)
        with ensureDirSync_skippable [of "d @ butlast q" wa err we] e Some
        obtain c where "faults wa (d @ butlast q) = Some c" "err = io_error c (d @ butlast q)"
          by auto
        then have "ensureDirSync (d @ butlast q) x = (Some err, x)"
          by (simp add: ensureDirSync_fault fx)
        with stat Inr RegularFile r ok dn show ?thesis
          by (simp add: copyEntry.simps isDirectory_def)
      next
        case None
        with run Inr RegularFile e dn
        have cp: "copyFileSync (s @ q) (d @ q) we = (r, wb)"
          by (simp add: copyEntry.simps isDirectory_def)
        note kae = keeps_ensureDirSync [OF ap e]
        from e None have made: "faults wa (d @ butlast q) = None"
          "entry_at (tree we) (d @ butlast q) = Some KDir"
          using ensureDirSync_made by blast+
        from kae src nofault have src': "entry_at (tree we) (s @ q) = Some (KFile c0)"
          and nofault': "faults we (s @ q) = None" and fe: "faults we = faults wa"
          by (simp_all add: keeps_def)
        have "entry_at (tree we) ((s @ butlast q) @ [last q]) \<noteq> None"
          using src' q by simp
        from entry_at_ancestor [OF this]
        have psrc: "entry_at (tree we) (s @ butlast q) = Some KDir" by simp
        from cp src' nofault' have wr: "writeFileSync (d @ q) c0 we = (r, wb)"
          using readFileSync_entry [of "s @ q" we c0] by (simp add: copyFileSync_def)
        have kex: "keeps s d we x"
          using keeps_trans [OF keeps_writeFileSync [OF ap wr src'] k] .
        from keeps_mirror(1) [OF kex psrc made(2)] made(1)
        have ens: "ensureDirSync (d @ butlast q) x = (None, x)"
          by (simp add: ensureDirSync_noop fx)
        have rd: "readFileSync (s @ q) x = Inr c0"
          using src nofault by (simp add: readFileSync_entry fx sx)
        show ?thesis
        proof (cases r)
          case (Some err)
          with ok have "skippable err" by (simp add: passed_def)
          with writeFileSync_skippable [of "d @ q" c0 we err wb] wr Some made(2) dn
          obtain cf where "faults we (d @ q) = Some cf" "err = io_error cf (d @ q)" by auto
          then have "writeFileSync (d @ q) c0 x = (Some err, x)"
            by (simp add: writeFileSync_fault fx fe)
          with stat Inr RegularFile ens rd dn Some ok show ?thesis
            by (simp add: copyEntry.simps isDirectory_def copyFileSync_def)
        next
          case None
          with writeFileSync_result [OF wr] have dst: "entry_at (tree wb) (d @ q) = Some (KFile c0)"
            by simp
          from wr None have nf: "faults we (d @ q) = None"
            by (auto simp: writeFileSync_def split: option.splits)
          have "entry_at (tree wb) (s @ q) = Some (KFile c0)"
            using keeps_writeFileSync [OF ap wr src'] src' by (simp add: keeps_def)
          from keeps_mirror(1) [OF k this dst] nf
          have "writeFileSync (d @ q) c0 x = (None, x)"
            by (simp add: writeFileSync_noop fx fe)
          with stat Inr RegularFile ens rd dn show ?thesis
            by (simp add: copyEntry.simps isDirectory_def copyFileSync_def passed_def)
        qed
      qed
    qed
  qed
qed

lemma copyUnpackedFiles_again:
  assumes ap: "apart s d"
  shows "copyUnpackedFiles n (s @ q) (d @ q) w = Some (None, w') \<Longrightarrow> keeps s d w' x \<Longrightarrow>
    \<exists>u. copyUnpackedFiles n (s @ q) (d @ q) x = Some (None, u)
      \<and> tree u = tree x \<and> faults u = faults x"
proof (induction n arbitrary: q w w' x)
  case 0
  then show ?case by simp
next
  case (Suc n)
  have kwx: "keeps s d w x"
    using keeps_trans [OF copyUnpackedFiles_keeps [OF ap Suc.prems(1)] Suc.prems(2)] .
  then have fx: "faults x = faults w"
    and sx: "\<And>z. entry_at (tree x) (s @ z) = entry_at (tree w) (s @ z)"
    by (simp_all add: keeps_def)
  have ex: "existsSync (s @ q) x = existsSync (s @ q) w"
    using sx [of q] by (simp add: existsSync_iff fx)
  show ?case
  proof (cases "existsSync (s @ q) w")
    case False
    with ex show ?thesis by simp
  next
    case True
    show ?thesis
    proof (cases "readdirSync (s @ q) w")
      case (Inl e)
      with True Suc.prems(1) show ?thesis by simp
    next
      case (Inr items)
      with True Suc.prems(1) have run: "copyItems n (s @ q) (d @ q) items w = Some (None, w')"
        by simp
      from readdirSync_items [OF Inr] have dir: "faults w (s @ q) = None"
        "entry_at (tree w) (s @ q) = Some KDir"
        and items: "set items = {i. entry_at (tree w) ((s @ q) @ [i]) \<noteq> None}"
        by simp_all
      from readdirSync_ok [of x "s @ q"] dir obtain items2 where
        Inr2: "readdirSync (s @ q) x = Inr items2"
        using sx [of q] by (auto simp: fx)
      from readdirSync_items(1) [OF Inr2] items have sub: "set items2 = set items"
        using sx by simp
      have each: "\<exists>r u. copyEntry n ((s @ q) @ [item]) ((d @ q) @ [item]) y = Some (r, u)
          \<and> tree u = tree y \<and> faults u = faults y \<and> passed r"
        if "item \<in> set items2" and y: "tree y = tree x" "faults y = faults x" for item y
      proof -
        from that sub copyItems_each [OF ap run] obtain wa r wb where
          step: "copyEntry n (s @ q @ [item]) (d @ q @ [item]) wa = Some (r, wb)"
          and ok: "passed r" and kb: "keeps s d wb w'"
          by blast
        have "keeps s d wb y"
          using keeps_same [OF keeps_trans [OF kb Suc.prems(2)] y] .
        from copyEntry_again [OF ap Suc.IH step ok _ this] show ?thesis by simp
      qed
      from copyItems_again [of items2 x n "s @ q" "d @ q" x] each
      obtain u where "copyItems n (s @ q) (d @ q) items2 x = Some (None, u)"
        "tree u = tree x" "faults u = faults x"
        by blast
      with True ex Inr2 show ?thesis by simp
    qed
  qed
qed


subsection \<open>Manual extraction and the copies\<close>

text \<open>
  An iteration of the manual extraction that throws nothing leaves the copies alone: it
  creates directories, writes a file only where none stood, and removes a directory
  only where the header declares a file, which is not where the external-storage
  directory has a directory.
\<close>

lemma keeps_mkdir_near:
  assumes ap: "apart s d" and near: "prefix p (d @ q)" and run: "ensureDirSync p w = (r, w')"
  shows "keeps s d w w'"
  using run
proof (cases rule: ensureDirSync_cases)
  case failed
  then show ?thesis by (simp add: keeps_refl)
next
  case (made t')
  have src: "entry_at t' (s @ z) = entry_at (tree w) (s @ z)" for z
  proof -
    have "\<not> prefix (s @ z) p"
      using apart_append(1) [OF ap, of z q] near prefix_order.order_trans by blast
    with mkdirp_grows [OF made(3), of "s @ z"] show ?thesis by auto
  qed
  have dst: "entry_at t' (d @ z) = entry_at (tree w) (d @ z)" if "entry_at (tree w) (d @ z) \<noteq> None" for z
    using that mkdirp_grows [OF made(3), of "d @ z"] by auto
  from src dst made show ?thesis by (auto simp: keeps_def)
qed

lemma keeps_put_absent:
  assumes ap: "apart s d" and run: "writeFileSync (d @ q) c w = (r, w')"
    and absent: "faults w (d @ q) = None \<Longrightarrow> entry_at (tree w) (d @ q) = None"
  shows "keeps s d w w'"
  using run
proof (cases rule: writeFileSync_cases)
  case failed
  then show ?thesis by (simp add: keeps_refl)
next
  case (written t')
  have at: "entry_at t' z = (if z = d @ q then Some (KFile c) else entry_at (tree w) z)" for z
    using entry_at_put [OF written(3)] by simp
  have "entry_at t' (s @ z) = entry_at (tree w) (s @ z)" for z
    using apart_append(3) [OF ap] by (simp add: at)
  with at absent written show ?thesis by (auto simp: keeps_def)
qed

lemma keeps_del:
  assumes ap: "apart s d" and p: "d @ q \<noteq> []"
    and nodir: "entry_at (tree w) (s @ q) \<noteq> Some KDir"
    and dir: "entry_at (tree w) (d @ q) = Some KDir"
  shows "keeps s d w (w\<lparr>tree := del (tree w) (d @ q)\<rparr>)"
proof -
  have src: "entry_at (del (tree w) (d @ q)) (s @ z) = entry_at (tree w) (s @ z)" for z
    using apart_append(2) [OF ap] p by (simp add: entry_at_del)
  have dst: "\<not> prefix (d @ q) (d @ z)"
    if "entry_at (tree w) (s @ z) \<noteq> None" "entry_at (tree w) (d @ z) = entry_at (tree w) (s @ z)"
    for z
  proof
    assume "prefix (d @ q) (d @ z)"
    then obtain r where z: "z = q @ r" by (auto simp: prefix_def)
    show False
    proof (cases "r = []")
      case True
      with z that dir nodir show ?thesis by simp
    next
      case False
      with entry_at_ancestor [of "tree w" "s @ q" r] that(1) z nodir show ?thesis by simp
    qed
  qed
  from src dst p show ?thesis by (auto simp: keeps_def entry_at_del)
qed

lemma extractMissing_keeps:
  assumes ap: "apart s d"
    and run: "extractMissing lib asarFile nf (d @ q) entry w = (r, w')"
    and absent: "faults w (d @ q) = None \<Longrightarrow> entry_at (tree w) (d @ q) = None"
  shows "keeps s d w w'"
proof (cases "isUnpacked entry")
  case True
  with run show ?thesis by (auto simp: extractMissing_def intro: keeps_warn keeps_refl)
next
  case False
  obtain r1 w1 where t: "tryExtractFile lib asarFile nf (d @ q) w = (r1, w1)"
    by (cases "tryExtractFile lib asarFile nf (d @ q) w")
  have "keeps s d w w1"
  proof (cases "extractFile lib asarFile nf")
    case (Inl e)
    with t show ?thesis by (auto simp: tryExtractFile_def keeps_refl)
  next
    case (Inr v)
    show ?thesis
    proof (cases v)
      case (Buffer b)
      obtain r2 w2 where e: "ensureDirSync (dirname (d @ q)) w = (r2, w2)"
        by (cases "ensureDirSync (dirname (d @ q)) w")
      have near: "prefix (dirname (d @ q)) (d @ q)"
        by (simp add: dirname_def prefixeq_butlast)
      note k1 = keeps_mkdir_near [OF ap near e]
      show ?thesis
      proof (cases r2)
        case None
        with t e Inr Buffer have wr: "writeFileSync (d @ q) b w2 = (r1, w1)"
          by (simp add: tryExtractFile_def)
        have "entry_at (tree w2) (d @ q) = None" if "faults w2 (d @ q) = None"
        proof -
          from e None obtain t' where t': "mkdirp (tree w) (dirname (d @ q)) = Inr t'"
            "w2 = w\<lparr>tree := t'\<rparr>"
            by (auto elim: ensureDirSync_cases)
          with that absent have a: "entry_at (tree w) (d @ q) = None" by simp
          then have "d @ q \<noteq> []" by auto
          from not_prefix_butlast [OF this] have "\<not> prefix (d @ q) (dirname (d @ q))"
            unfolding dirname_def .
          with entry_at_mkdirp [OF t'(1), of "d @ q"] a t'(2) show ?thesis by simp
        qed
        from keeps_trans [OF k1 keeps_put_absent [OF ap wr this]] show ?thesis .
      next
        case (Some err)
        with t e Inr Buffer k1 show ?thesis by (simp add: tryExtractFile_def)
      qed
    qed (use Inr t in \<open>auto simp: tryExtractFile_def keeps_refl\<close>)
  qed
  with run t False show ?thesis
    by (cases r1) (auto simp: extractMissing_def intro: keeps_warn)
qed

lemma extractEntry_keeps:
  assumes ap: "apart s d"
    and wl: "wellListed d header f"
    and cons: "\<not> isDir (getAsarEntryInfo header (normalizeFilename f)) \<Longrightarrow>
        entry_at (tree w) (s @ path_parts (normalizeFilename f)) \<noteq> Some KDir"
    and run: "extractEntry lib asarFile d header f w = (None, w')"
  shows "keeps s d w w'"
proof -
  let ?nf = "normalizeFilename f"
  let ?q = "path_parts ?nf"
  let ?e = "getAsarEntryInfo header ?nf"
  from wl have dd: "path_join d ?nf = d @ ?q" by (simp add: wellListed_def)
  show ?thesis
  proof (cases "isDir ?e")
    case True
    with run dd show ?thesis
      by (auto simp: extractEntry_dir keeps_refl split: if_splits intro: keeps_ensureDirSync [OF ap])
  next
    case False
    note E = extractEntry_file [OF False, of lib asarFile d w, unfolded Let_def dd]
    show ?thesis
    proof (cases "regularFileAt (d @ ?q) w")
      case True
      with E run show ?thesis by (simp add: keeps_refl)
    next
      case nofile: False
      show ?thesis
      proof (cases "directoryAt (d @ ?q) w")
        case True
        obtain r1 w1 where rm: "removeSync (d @ ?q) w = (r1, w1)"
          by (cases "removeSync (d @ ?q) w")
        with E run nofile True have "r1 = None"
          by (cases r1) simp_all
        with removeSync_dir [OF True] rm have p: "d @ ?q \<noteq> []"
          and w1: "w1 = w\<lparr>tree := del (tree w) (d @ ?q)\<rparr>"
          by simp_all
        from True have "entry_at (tree w) (d @ ?q) = Some KDir"
          by (simp add: directoryAt_iff)
        from keeps_del [OF ap p cons [OF False] this] w1 have k1: "keeps s d w w1" by simp
        from E run nofile True rm \<open>r1 = None\<close>
        have rest: "extractMissing lib asarFile ?nf (d @ ?q) ?e w1 = (None, w')" by simp
        have "entry_at (tree w1) (d @ ?q) = None"
          using p w1 by (simp add: entry_at_del)
        from keeps_trans [OF k1 extractMissing_keeps [OF ap rest this]] show ?thesis .
      next
        case nodir: False
        with E run nofile have rest: "extractMissing lib asarFile ?nf (d @ ?q) ?e w = (None, w')"
          by simp
        have "entry_at (tree w) (d @ ?q) = None" if "faults w (d @ ?q) = None"
        proof (cases "entry_at (tree w) (d @ ?q)")
          case (Some k)
          with nofile nodir that show ?thesis
            by (cases k) (auto simp: regularFileAt_iff directoryAt_iff)
        qed simp
        from extractMissing_keeps [OF ap rest this] show ?thesis .
      qed
    qed
  qed
qed

lemma extractEntries_keeps:
  assumes ap: "apart s d"
    and listed: "\<forall>f \<in> set fs. wellListed d header f"
    and cons: "\<forall>f \<in> set fs. \<not> isDir (getAsarEntryInfo header (normalizeFilename f)) \<longrightarrow>
        entry_at (tree w) (s @ path_parts (normalizeFilename f)) \<noteq> Some KDir"
    and run: "extractEntries lib asarFile d header fs w = (None, w')"
  shows "keeps s d w w'"
  using listed cons run
proof (induction fs arbitrary: w)
  case Nil
  then show ?case by (simp add: keeps_refl)
next
  case (Cons f fs)
  obtain r w1 where step: "extractEntry lib asarFile d header f w = (r, w1)"
    by (cases "extractEntry lib asarFile d header f w")
  with Cons.prems(3) have r: "r = None"
    and rest: "extractEntries lib asarFile d header fs w1 = (None, w')"
    by (cases r; simp)+
  have k1: "keeps s d w w1"
    using extractEntry_keeps [OF ap _ _ step [unfolded r]] Cons.prems(1,2) by simp
  then have "\<forall>g \<in> set fs. \<not> isDir (getAsarEntryInfo header (normalizeFilename g)) \<longrightarrow>
        entry_at (tree w1) (s @ path_parts (normalizeFilename g)) \<noteq> Some KDir"
    using Cons.prems(2) by (simp add: keeps_def)
  from keeps_trans [OF k1 Cons.IH [OF _ this rest]] Cons.prems(1) show ?case by simp
qed


text \<open>
  Claim C5. Let a first extraction complete, leaving the world \<open>w'\<close>, for an archive that
  keeps to the conventions of its format: the listing names entries of the header by
  their paths, the external-storage directory holds no directory where the header
  declares a file, and the destination and the external-storage directory are apart.
  The bulk extraction belongs to the \<^verbatim>\<open>asar\<close> package; what is assumed of it is that in
  the first run it left alone the faults, the external-storage directory and the copies
  that the pre-seed had made, and that over the finished destination it rewrites
  nothing and fails, if at all, with the fallback trigger and only if it also failed
  in the first run. Then a second extraction, started on \<open>w'\<close>, completes without error
  and leaves the tree as it was, path by path and byte by byte: the pre-seed copy
  finds every copy in place, and the manual extraction finds every entry settled.
\<close>

theorem reextraction_identical:
  assumes listing: "listPackage lib asarFile = Inr filenames"
    and header: "readArchiveHeaderSync lib asarFile = Inr header"
    and listed: "\<forall>f \<in> set filenames. wellListed destDir header f"
    and mirrors: "\<forall>f \<in> set filenames.
        \<not> isDir (getAsarEntryInfo header (normalizeFilename f)) \<longrightarrow>
        entry_at (tree w) (path_suffix asarFile ''.unpacked'' @ path_parts (normalizeFilename f))
          \<noteq> Some KDir"
    and ap: "apart (path_suffix asarFile ''.unpacked'') destDir"
    and pre1: "(if existsSync (path_suffix asarFile ''.unpacked'') w
                then copyUnpackedFiles n (path_suffix asarFile ''.unpacked'') destDir w
                else Some (None, w)) = Some (None, w1)"
    and bulk1: "extractAll lib asarFile destDir w1 = (r1, w2)"
    and frame: "keeps (path_suffix asarFile ''.unpacked'') destDir w1 w2"
    and first: "extractAsarWithUnpacked n lib asarFile destDir w = Some (None, w')"
    and bulk2: "\<forall>x. tree x = tree w' \<and> faults x = faults w' \<longrightarrow>
        (\<exists>r2 x'. extractAll lib asarFile destDir x = (r2, x')
           \<and> tree x' = tree x \<and> faults x' = faults x
           \<and> (case r2 of None \<Rightarrow> True | Some err \<Rightarrow> missingUnpacked err \<and> r1 \<noteq> None))"
  shows "\<exists>w''. extractAsarWithUnpacked n lib asarFile destDir w' = Some (None, w'')
    \<and> tree w'' = tree w' \<and> faults w'' = faults w'"
proof -
  let ?unp = "path_suffix asarFile ''.unpacked''"
  have k1: "keeps ?unp destDir w w1"
  proof (cases "existsSync ?unp w")
    case True
    with pre1 have "copyUnpackedFiles n (?unp @ []) (destDir @ []) w = Some (None, w1)" by simp
    from copyUnpackedFiles_keeps [OF ap this] show ?thesis .
  next
    case False
    with pre1 show ?thesis by (simp add: keeps_refl)
  qed
  have manual1: "extractAsarManually lib asarFile destDir ?unp (warn fallbackWarning w2) = (None, w')"
    if "r1 \<noteq> None"
    using that first pre1 bulk1
    by (auto simp: extractAsarWithUnpacked_def Let_def split: if_splits)
  have k3: "keeps ?unp destDir w2 w'"
  proof (cases r1)
    case None
    with first pre1 bulk1 show ?thesis
      by (simp add: extractAsarWithUnpacked_def Let_def keeps_refl)
  next
    case (Some err)
    with manual1 listing header
    have run: "extractEntries lib asarFile destDir header filenames (warn fallbackWarning w2) = (None, w')"
      by (simp add: extractAsarManually_def)
    have "\<forall>f \<in> set filenames. \<not> isDir (getAsarEntryInfo header (normalizeFilename f)) \<longrightarrow>
        entry_at (tree (warn fallbackWarning w2)) (?unp @ path_parts (normalizeFilename f)) \<noteq> Some KDir"
      using mirrors keeps_trans [OF k1 frame] by (simp add: keeps_def warn_def)
    from extractEntries_keeps [OF ap listed this run] show ?thesis
      by (rule keeps_from) (simp_all add: warn_def)
  qed
  have k: "keeps ?unp destDir w1 w'"
    using keeps_trans [OF frame k3] .
  have kw: "keeps ?unp destDir w w'"
    using keeps_trans [OF k1 k] .
  have "entry_at (tree w') (?unp @ []) = entry_at (tree w) (?unp @ [])" "faults w' = faults w"
    using kw unfolding keeps_def by blast+
  then have ex: "existsSync ?unp w' = existsSync ?unp w"
    by (simp add: existsSync_iff)
  have "\<exists>u. (if existsSync ?unp w' then copyUnpackedFiles n ?unp destDir w'
              else Some (None, w')) = Some (None, u) \<and> tree u = tree w' \<and> faults u = faults w'"
  proof (cases "existsSync ?unp w")
    case True
    with pre1 have "copyUnpackedFiles n (?unp @ []) (destDir @ []) w = Some (None, w1)" by simp
    from copyUnpackedFiles_again [OF ap this k] True ex show ?thesis by simp
  next
    case False
    with ex show ?thesis by simp
  qed
  then obtain u where pre2: "(if existsSync ?unp w' then copyUnpackedFiles n ?unp destDir w'
              else Some (None, w')) = Some (None, u)"
    and u: "tree u = tree w'" "faults u = faults w'"
    by blast
  from bulk2 u obtain r2 x' where b2: "extractAll lib asarFile destDir u = (r2, x')"
    and x': "tree x' = tree w'" "faults x' = faults w'"
    and out: "case r2 of None \<Rightarrow> True | Some err \<Rightarrow> missingUnpacked err \<and> r1 \<noteq> None"
    by fastforce
  show ?thesis
  proof (cases r2)
    case None
    with pre2 b2 x' show ?thesis
      by (simp add: extractAsarWithUnpacked_def Let_def)
  next
    case (Some err2)
    with out have trig: "missingUnpacked err2" and "r1 \<noteq> None" by simp_all
    have "tree (warn fallbackWarning x') = tree w'" "faults (warn fallbackWarning x') = faults w'"
      using x' by (simp_all add: warn_def)
    from extractAsarManually_again [OF manual1 [OF \<open>r1 \<noteq> None\<close>] listing header listed this]
    obtain v' where "extractAsarManually lib asarFile destDir ?unp (warn fallbackWarning x') = (None, v')"
      and "tree v' = tree w'" "faults v' = faults w'"
      by blast
    with pre2 b2 Some trig show ?thesis
      by (simp add: extractAsarWithUnpacked_def Let_def)
  qed
qed



theorem reextraction_identical_witness:
  "extractAsarWithUnpacked 2 seeded_lib example_asar example_dest seeded_world =
     Some (None, seeded_world_extracted)
   \<and> (\<exists>w''. extractAsarWithUnpacked 2 seeded_lib example_asar example_dest
                seeded_world_extracted = Some (None, w'')
          \<and> tree w'' = tree seeded_world_extracted
          \<and> faults w'' = faults seeded_world_extracted)"
proof -
  let ?names = "[''/app'', ''/app/main.js'', ''/app/native.node'', ''/app/addon.node'']"
  let ?unp = "[''opt'', ''app.asar.unpacked'']"
  let ?err = "io_error ''ENOENT'' [''opt'', ''app.asar.unpacked'', ''app'', ''addon.node'']"
  let ?w2 = "seeded_world_extracted\<lparr>console := []\<rparr>"
  have unp: "path_suffix example_asar ''.unpacked'' = ?unp"
    by (simp add: path_suffix_def example_asar_def)
  have listing: "listPackage seeded_lib example_asar = Inr ?names"
    and header: "readArchiveHeaderSync seeded_lib example_asar = Inr seeded_header"
    by (simp_all add: seeded_lib_def)
  have listed: "\<forall>f \<in> set ?names. wellListed example_dest seeded_header f"
    by (simp add: wellListed_def normalizeFilename_def is_sep_def child_of_def
        path_parts_def seeded_header_def path_join_def example_dest_def)
  have mirrors: "\<forall>f \<in> set ?names.
      \<not> isDir (getAsarEntryInfo seeded_header (normalizeFilename f)) \<longrightarrow>
      entry_at (tree seeded_world) (path_suffix example_asar ''.unpacked'' @ path_parts (normalizeFilename f))
        \<noteq> Some KDir"
    by (simp add: unp normalizeFilename_def is_sep_def path_parts_def entry_at_def
        seeded_world_def getAsarEntryInfo_def getProperty_def seeded_header_def)
  have ap: "apart (path_suffix example_asar ''.unpacked'') example_dest"
    by (simp add: unp apart_def example_dest_def)
  have pre1: "(if existsSync (path_suffix example_asar ''.unpacked'') seeded_world
       then copyUnpackedFiles 2 (path_suffix example_asar ''.unpacked'') example_dest seeded_world
       else Some (None, seeded_world)) = Some (None, seeded_world_copied)"
    by (simp add: eval_defs seeded_world_def seeded_world_copied_def numeral_2_eq_2
        copyEntry.simps)
  have step1: "ensureDirSync (example_dest @ [''app'']) seeded_world_copied =
      (None, seeded_world_copied)"
    by (simp add: eval_defs seeded_world_copied_def)
  have step2: "writeFileSync (example_dest @ [''app'', ''main.js'']) ''main()'' seeded_world_copied =
      (None, ?w2)"
    by (simp add: eval_defs seeded_world_copied_def seeded_world_extracted_def)
  have step3: "copyFileSync (?unp @ [''app'', ''native.node''])
      (example_dest @ [''app'', ''native.node'']) ?w2 = (None, ?w2)"
    by (simp add: eval_defs seeded_world_extracted_def)
  have bulk1: "extractAll seeded_lib example_asar example_dest seeded_world_copied =
      (Some ?err, ?w2)"
    using step1 step2 step3 by (simp add: seeded_lib_def unp)
  have absent: "entry_at (tree seeded_world_copied) (example_dest @ [''app'', ''main.js'']) = None"
    by (simp add: entry_at_def seeded_world_copied_def example_dest_def)
  have frame: "keeps (path_suffix example_asar ''.unpacked'') example_dest seeded_world_copied ?w2"
    using keeps_put_absent [OF ap step2 absent] .
  have first: "extractAsarWithUnpacked 2 seeded_lib example_asar example_dest seeded_world =
      Some (None, seeded_world_extracted)"
    by (simp add: eval_defs seeded_world_def seeded_lib_def seeded_header_def
        seeded_world_extracted_def numeral_2_eq_2 copyEntry.simps)
  have trig: "missingUnpacked ?err"
    by (simp add: eval_defs)
  have bulk2: "\<forall>x. tree x = tree seeded_world_extracted \<and> faults x = faults seeded_world_extracted \<longrightarrow>
        (\<exists>r2 x'. extractAll seeded_lib example_asar example_dest x = (r2, x')
           \<and> tree x' = tree x \<and> faults x' = faults x
           \<and> (case r2 of None \<Rightarrow> True
               | Some err \<Rightarrow> missingUnpacked err \<and> Some ?err \<noteq> None))"
  proof (intro allI impI)
    fix x :: world
    assume x: "tree x = tree seeded_world_extracted \<and> faults x = faults seeded_world_extracted"
    then have "extractAll seeded_lib example_asar example_dest x = (Some ?err, x)"
      by (simp add: eval_defs seeded_lib_def seeded_world_extracted_def)
    with trig show "\<exists>r2 x'. extractAll seeded_lib example_asar example_dest x = (r2, x')
           \<and> tree x' = tree x \<and> faults x' = faults x
           \<and> (case r2 of None \<Rightarrow> True
               | Some err \<Rightarrow> missingUnpacked err \<and> Some ?err \<noteq> None)"
      by simp
  qed
  from reextraction_identical [OF listing header listed mirrors ap pre1 bulk1 frame first bulk2] first
  show ?thesis by simp
qed

end
